(* ===== verification/Prelude.thy ===== *)
theory Prelude
  imports Complex_Main "HOL-Library.Word"
begin

text \<open>
  Shared vocabulary of the pedometer model. C \<open>float\<close> values are modelled as
  \<open>real\<close> (exact arithmetic: rounding of single-precision floats is not modelled),
  C \<open>unsigned int\<close> values as \<open>32 word\<close>, so that the counters wrap as in C.
  Every C \<open>for (i = lo; i < hi; i++)\<close> loop of the source is one \<open>for_loop lo hi body\<close>,
  with \<open>body i\<close> the loop body acting on the variables the loop changes; this theory
  proves the loop combinator's termination and the rules used to reason about it
  (unfolding the last iteration, an invariant rule, a frame rule).
\<close>

type_synonym float = real
type_synonym uint = "32 word"

named_theorems pedo_consts "definitions of the configuration constants of pedometer.h"

named_theorems loop_rules "reasoning rules for the loop combinator"

subsection \<open>The loop combinator\<close>

function for_loop :: "nat \<Rightarrow> nat \<Rightarrow> (nat \<Rightarrow> 's \<Rightarrow> 's) \<Rightarrow> 's \<Rightarrow> 's" where
  "for_loop i n body s = (if i < n then for_loop (Suc i) n body (body i s) else s)"
  by pat_completeness auto
termination
  by (relation "measure (\<lambda>(i, n, _, _). n - i)") auto

declare for_loop.simps [simp del]

lemma for_loop_stop [simp, loop_rules]: "n \<le> i \<Longrightarrow> for_loop i n body s = s"
  by (simp add: for_loop.simps)

lemma for_loop_step [loop_rules]:
  "i < n \<Longrightarrow> for_loop i n body s = for_loop (Suc i) n body (body i s)"
  by (simp add: for_loop.simps [of i n])

lemma for_loop_foldl: "for_loop i n body s = foldl (\<lambda>s j. body j s) s [i..<n]"
proof (induction i n body s rule: for_loop.induct)
  case (1 i n body s)
  show ?case
  proof (cases "i < n")
    case True
    with "1" show ?thesis by (simp add: for_loop_step upt_conv_Cons)
  next
    case False
    then show ?thesis by simp
  qed
qed

lemma for_loop_last [loop_rules]:
  "i \<le> n \<Longrightarrow> for_loop i (Suc n) body s = body n (for_loop i n body s)"
  by (simp add: for_loop_foldl)

text \<open>Splitting the index range of a loop.\<close>

lemma for_loop_split [loop_rules]:
  "i \<le> j \<Longrightarrow> j \<le> n \<Longrightarrow> for_loop i n body s = for_loop j n body (for_loop i j body s)"
proof -
  assume "i \<le> j" "j \<le> n"
  then have "[i..<n] = [i..<j] @ [j..<n]" by (metis le_add_diff_inverse upt_add_eq_append)
  then show ?thesis by (simp add: for_loop_foldl)
qed

text \<open>The invariant rule: what holds before iteration \<open>i\<close> and is kept by every iteration holds at the exit.\<close>

lemma for_loop_rule [loop_rules]:
  assumes "P i s" and "i \<le> n"
    and "\<And>j t. i \<le> j \<Longrightarrow> j < n \<Longrightarrow> P j t \<Longrightarrow> P (Suc j) (body j t)"
  shows "P n (for_loop i n body s)"
  using assms
proof (induction n)
  case 0
  then show ?case by simp
next
  case (Suc n)
  show ?case
  proof (cases "i \<le> n")
    case True
    with Suc have "P n (for_loop i n body s)" by simp
    with Suc.prems(3) True show ?thesis by (simp add: for_loop_last)
  next
    case False
    with Suc.prems show ?thesis by (simp add: le_Suc_eq)
  qed
qed

text \<open>The frame rule: a projection that no iteration changes is unchanged by the loop.\<close>

lemma for_loop_frame [loop_rules]:
  assumes "\<And>j t. i \<le> j \<Longrightarrow> j < n \<Longrightarrow> f (body j t) = f t"
  shows "f (for_loop i n body s) = f s"
proof (cases "i \<le> n")
  case True
  have "f (for_loop i m body s) = f s" if "i \<le> m" "m \<le> n" for m
    using that
  proof (induction m)
    case 0
    then show ?case by simp
  next
    case (Suc m)
    then show ?case
      by (cases "i \<le> m") (auto simp: for_loop_last assms le_Suc_eq)
  qed
  with True show ?thesis by simp
next
  case False
  then show ?thesis by simp
qed

text \<open>The monotonicity rule: a projection that no iteration decreases does not decrease over the loop.\<close>

lemma for_loop_mono [loop_rules]:
  fixes f :: "'s \<Rightarrow> 'b :: preorder"
  assumes "\<And>j t. i \<le> j \<Longrightarrow> j < n \<Longrightarrow> f t \<le> f (body j t)"
  shows "f s \<le> f (for_loop i n body s)"
proof (cases "i \<le> n")
  case True
  show ?thesis
    by (rule for_loop_rule [where P = "\<lambda>j t. f s \<le> f t", OF _ True]) (auto intro: order_trans assms)
next
  case False
  then show ?thesis by simp
qed

subsection \<open>Lists updated by index\<close>

lemma take_Suc_list_update: "c < length xs \<Longrightarrow> take (Suc c) (xs[c := v]) = take c xs @ [v]"
  by (simp add: take_Suc_conv_app_nth)

lemma take_Suc_nth: "j < length xs \<Longrightarrow> take (Suc j) xs = take j xs @ [xs ! j]"
  by (simp add: take_Suc_conv_app_nth)

lemma take_drop_update:
  assumes "j < length xs"
  shows "take (Suc j) (xs[j := v]) = take j xs @ [v] \<and> drop (Suc j) (xs[j := v]) = drop (Suc j) xs"
  using assms by (simp add: take_Suc_list_update)

lemma drop_last_singleton: "length xs = Suc n \<Longrightarrow> drop n xs = [xs ! n]"
  by (metis Cons_nth_drop_Suc drop_all lessI order_refl)

text \<open>Cutting a delayed signal into consecutive windows of length \<open>n\<close>.\<close>

lemma take_window_shift:
  assumes "length X = tc" and "length b = n" and "tc \<le> n"
  shows "take n (X @ b) @ take (n * k) (drop (n - tc) b @ R) = take (n * Suc k) (X @ b @ R)"
proof -
  have "take n (X @ b) = X @ take (n - tc) b" using assms by simp
  moreover have "take (n * Suc k) (X @ b @ R) = X @ take (n * Suc k - tc) (b @ R)" using assms by simp
  moreover have "take (n * Suc k - tc) (b @ R) = take (n - tc) b @ take (n * k) (drop (n - tc) b @ R)"
  proof -
    have e: "n * Suc k - tc = (n - tc) + n * k" using assms by simp
    show ?thesis unfolding e take_add using assms by simp
  qed
  ultimately show ?thesis by simp
qed

subsection \<open>Unsigned counters\<close>

text \<open>Counts converted to \<open>float\<close> stay \<open>real (unat c)\<close>, the form the arithmetic lemmas are stated in.\<close>

declare of_nat_unat [simp del]

text \<open>Incrementing a 32-bit counter that is known to be small does not wrap.\<close>

lemma unat_add_small:
  fixes a b :: uint
  assumes "unat a + unat b < 2 ^ 32"
  shows "unat (a + b) = unat a + unat b"
  using assms by (simp add: unat_word_ariths)

text \<open>A 32-bit sum never reads larger than the sum of its parts.\<close>

lemma unat_add_le: "unat (a + b :: uint) \<le> unat a + unat b"
  by (simp add: unat_word_ariths)

lemma word_pos_unat: "0 < unat (w :: uint) \<Longrightarrow> 0 < w"
  by (simp add: word_gt_0 unat_gt_0)

lemma avg_within:
  fixes N S :: real
  assumes "0 < N" "a * N \<le> S" "S \<le> b * N"
  shows "a \<le> S / N \<and> S / N \<le> b"
  using assms by (simp add: pos_le_divide_eq pos_divide_le_eq)

text \<open>\<open>%d\<close> of an unsigned counter (its \<open>sint\<close>) is the count itself below \<open>2^31\<close>.\<close>

lemma int_unat_uint: "int (unat (w :: uint)) = uint w"
  by (simp add: uint_nat)

lemma sint_small:
  assumes "unat (w :: uint) < 2 ^ 31"
  shows "sint w = int (unat w)"
proof -
  have "uint w < 2 ^ 31" using assms by (metis int_unat_uint of_nat_less_iff of_nat_numeral of_nat_power)
  moreover have "- (2 ^ 31) \<le> uint w" by (rule order_trans [OF _ uint_ge_0]) simp
  ultimately have "signed_take_bit 31 (uint w) = uint w"
    by (intro signed_take_bit_int_eq_self)
  moreover have "sint w = signed_take_bit 31 (uint w)" by (simp add: sint_uint)
  ultimately show ?thesis by (simp add: uint_nat)
qed

lemma unat_incr_small:
  fixes a :: uint
  assumes "unat a < 2 ^ 32 - 1"
  shows "unat (a + 1) = Suc (unat a)"
  using assms unat_add_small [of a 1] by simp

end
