(* ===== verification/IIR_Filter.thy ===== *)
theory IIR_Filter
  imports Prelude
begin

text \<open>
  The second-order IIR filter of \<open>pedometer.h\<close> (\<open>filter_t\<close>) and \<open>pedometer.c\<close>
  (\<open>apply_filter\<close>), the two instances that \<open>main\<close> initialises (the 3 Hz low-pass
  smoother and the 4 Hz lead-lag derivative filter) with their group delay in samples,
  and the filter run over a sequence of inputs. The lemmas show that the state-passing
  filter computes the difference equation of the header comment, that the filter state
  holds the last two inputs and outputs, and the steady states of both instances.
\<close>

subsection \<open>Configuration constants\<close>

definition SENSOR_SAMP_FREQ :: nat where [pedo_consts]: "SENSOR_SAMP_FREQ = 104"
definition BUFF_FACTOR :: nat where [pedo_consts]: "BUFF_FACTOR = 2"
definition SAMP_BUFF_LEN :: nat where [pedo_consts]: "SAMP_BUFF_LEN = SENSOR_SAMP_FREQ div BUFF_FACTOR"
definition MAX_TC_SAMPLES :: nat where [pedo_consts]: "MAX_TC_SAMPLES = 20"
definition SENSOR_SAMP_INTVL :: float where [pedo_consts]: "SENSOR_SAMP_INTVL = 1 / real SENSOR_SAMP_FREQ"

lemma SAMP_BUFF_LEN_val [simp]: "SAMP_BUFF_LEN = 52"
  by (simp add: pedo_consts)

lemma MAX_TC_SAMPLES_val [simp]: "MAX_TC_SAMPLES = 20"
  by (simp add: pedo_consts)

subsection \<open>The filter state and one filter step\<close>

record filter_t =
  b0 :: float
  b1 :: float
  b2 :: float
  a1 :: float
  a2 :: float
  prev_in :: float
  prev_prev_in :: float
  prev_out :: float
  prev_prev_out :: float
  TC_samples :: uint

text \<open>\<open>apply_filter\<close>: returns the updated filter (the C function mutates \<open>*filt_data\<close>) and the output.\<close>

definition apply_filter :: "filter_t \<Rightarrow> float \<Rightarrow> filter_t \<times> float" where
  "apply_filter f in_data =
     (let out_data = b0 f * in_data + b1 f * prev_in f + b2 f * prev_prev_in f
                     - a1 f * prev_out f - a2 f * prev_prev_out f
      in (f\<lparr>prev_prev_in := prev_in f, prev_in := in_data,
            prev_prev_out := prev_out f, prev_out := out_data\<rparr>, out_data))"

subsection \<open>The two filter instances of \<open>main\<close>\<close>

text \<open>
  \<open>timeconst_samp = (unsigned int)(SENSOR_SAMP_FREQ * tau) + 1\<close>, capped at
  \<open>MAX_TC_SAMPLES\<close>. The float-to-unsigned conversion truncates; for the positive
  products of \<open>main\<close> that is the floor.
\<close>

definition tc_samples :: "float \<Rightarrow> uint" where
  "tc_samples tau =
     (let timeconst_samp = word_of_nat (nat \<lfloor>real SENSOR_SAMP_FREQ * tau\<rfloor>) + (1 :: uint)
      in if timeconst_samp > word_of_nat MAX_TC_SAMPLES then word_of_nat MAX_TC_SAMPLES
         else timeconst_samp)"

definition lp_filter_init :: filter_t where
  "lp_filter_init =
     \<lparr>b0 = 0.0072269463, b1 = 0.014453893, b2 = 0.0072269463,
      a1 = -1.7455322, a2 = 0.77444003,
      prev_in = 0, prev_prev_in = 0, prev_out = 0, prev_prev_out = 0,
      TC_samples = tc_samples 0.075\<rparr>"

definition ll_filter_init :: filter_t where
  "ll_filter_init =
     \<lparr>b0 = 2.5369363, b1 = 0, b2 = -2.5369363,
      a1 = -1.6641912, a2 = 0.71297842,
      prev_in = 0, prev_prev_in = 0, prev_out = 0, prev_prev_out = 0,
      TC_samples = tc_samples 0.06\<rparr>"

text \<open>
  The six filters of lines 60--61 as \<open>main\<close> configures them (lines 108--139): each
  chained assignment gives the x, y and z filters the same value, so the three low-pass
  filters are \<open>lp_filter_init\<close> and the three lead-lag filters \<open>ll_filter_init\<close>. Only
  the y-axis filters are ever applied; the others keep their initial values.
\<close>

record filter_bank =
  lp_x :: filter_t
  lp_y :: filter_t
  lp_z :: filter_t
  ll_x :: filter_t
  ll_y :: filter_t
  ll_z :: filter_t

definition filters_init :: filter_bank where
  "filters_init =
     \<lparr>lp_x = lp_filter_init, lp_y = lp_filter_init, lp_z = lp_filter_init,
      ll_x = ll_filter_init, ll_y = ll_filter_init, ll_z = ll_filter_init\<rparr>"

subsection \<open>Filtering a sequence\<close>

text \<open>Successive calls of \<open>apply_filter\<close> on one filter, as \<open>step_algo_preproc\<close> and \<open>step_algo_run\<close> make them.\<close>

fun filter_run :: "filter_t \<Rightarrow> float list \<Rightarrow> filter_t \<times> float list" where
  "filter_run f [] = (f, [])"
| "filter_run f (x # xs) =
     (let (f1, y) = apply_filter f x; (f2, ys) = filter_run f1 xs in (f2, y # ys))"

text \<open>A filter at rest at input \<open>c\<close> and output \<open>y\<close>: both histories constant.\<close>

definition at_rest :: "filter_t \<Rightarrow> float \<Rightarrow> float \<Rightarrow> bool" where
  "at_rest f c y \<longleftrightarrow> prev_in f = c \<and> prev_prev_in f = c \<and> prev_out f = y \<and> prev_prev_out f = y"

text \<open>Gain of a filter for a constant input (its value at frequency 0).\<close>

definition dc_gain :: "filter_t \<Rightarrow> float" where
  "dc_gain f = (b0 f + b1 f + b2 f) / (1 + a1 f + a2 f)"

text \<open>The lead-lag filter at rest at input \<open>c\<close>: its output history is zero.\<close>

definition ll_rest :: "float \<Rightarrow> filter_t" where
  "ll_rest c = ll_filter_init\<lparr>prev_in := c, prev_prev_in := c\<rparr>"

text \<open>The low-pass filter at rest at input \<open>c\<close>, its output the DC response \<open>dc_gain * c\<close>.\<close>

definition lp_rest :: "float \<Rightarrow> filter_t" where
  "lp_rest c = lp_filter_init\<lparr>prev_in := c, prev_prev_in := c,
                 prev_out := dc_gain lp_filter_init * c, prev_prev_out := dc_gain lp_filter_init * c\<rparr>"

subsection \<open>Filter lemmas\<close>

lemma apply_filter_coeffs [simp]:
  "b0 (fst (apply_filter f x)) = b0 f" "b1 (fst (apply_filter f x)) = b1 f"
  "b2 (fst (apply_filter f x)) = b2 f" "a1 (fst (apply_filter f x)) = a1 f"
  "a2 (fst (apply_filter f x)) = a2 f" "TC_samples (fst (apply_filter f x)) = TC_samples f"
  by (simp_all add: apply_filter_def Let_def)

lemma apply_filter_history [simp]:
  "prev_in (fst (apply_filter f x)) = x" "prev_prev_in (fst (apply_filter f x)) = prev_in f"
  "prev_out (fst (apply_filter f x)) = snd (apply_filter f x)"
  "prev_prev_out (fst (apply_filter f x)) = prev_out f"
  by (simp_all add: apply_filter_def Let_def)

lemma filter_run_coeffs [simp]:
  "b0 (fst (filter_run f xs)) = b0 f" "b1 (fst (filter_run f xs)) = b1 f"
  "b2 (fst (filter_run f xs)) = b2 f" "a1 (fst (filter_run f xs)) = a1 f"
  "a2 (fst (filter_run f xs)) = a2 f" "TC_samples (fst (filter_run f xs)) = TC_samples f"
  by (induction xs arbitrary: f) (simp_all add: split_def Let_def)

lemma length_filter_run [simp]: "length (snd (filter_run f xs)) = length xs"
  by (induction xs arbitrary: f) (simp_all add: split_def Let_def)

text \<open>Filtering a concatenation is filtering the second part from the state the first leaves.\<close>

lemma filter_run_append:
  "filter_run f (xs @ ys) =
     (let (f1, us) = filter_run f xs; (f2, vs) = filter_run f1 ys in (f2, us @ vs))"
  by (induction xs arbitrary: f) (simp_all add: split_def Let_def)

lemma filter_run_snoc:
  "filter_run f (xs @ [x]) =
     (let (f1, us) = filter_run f xs; (f2, v) = apply_filter f1 x in (f2, us @ [v]))"
  by (simp add: filter_run_append split_def Let_def)

lemma apply_filter_at_rest:
  assumes "at_rest f c y" and "y = (b0 f + b1 f + b2 f) * c - (a1 f + a2 f) * y"
  shows "apply_filter f c = (f, y)"
proof -
  from assms(1) have h: "prev_in f = c" "prev_prev_in f = c" "prev_out f = y" "prev_prev_out f = y"
    by (simp_all add: at_rest_def)
  have out: "b0 f * c + b1 f * prev_in f + b2 f * prev_prev_in f
             - a1 f * prev_out f - a2 f * prev_prev_out f = y"
    using h assms(2) by (simp add: algebra_simps)
  have "apply_filter f c = (f\<lparr>prev_prev_in := prev_in f, prev_in := c,
                               prev_prev_out := prev_out f, prev_out := y\<rparr>, y)"
    by (simp only: apply_filter_def Let_def out)
  also have "f\<lparr>prev_prev_in := prev_in f, prev_in := c,
               prev_prev_out := prev_out f, prev_out := y\<rparr> = f"
    using h by (cases f) simp
  finally show ?thesis .
qed

lemma filter_run_at_rest:
  assumes "at_rest f c y" and "y = (b0 f + b1 f + b2 f) * c - (a1 f + a2 f) * y"
  shows "filter_run f (replicate n c) = (f, replicate n y)"
  by (induction n) (simp_all add: apply_filter_at_rest [OF assms])

lemma dc_gain_fixed:
  assumes "1 + a1 f + a2 f \<noteq> 0"
  shows "dc_gain f * c = (b0 f + b1 f + b2 f) * c - (a1 f + a2 f) * (dc_gain f * c)"
  using assms by (simp add: dc_gain_def field_simps)

lemma ll_filter_init_tc: "TC_samples ll_filter_init = 7"
  by (simp add: ll_filter_init_def tc_samples_def pedo_consts)

text \<open>
  The lead-lag derivative filter has zero gain at frequency 0: at rest on a constant
  \<open>c\<close>, a constant input \<open>c\<close> yields the derivative 0 at every sample and leaves the
  filter unchanged.
\<close>

lemma ll_rest_filter_run: "filter_run (ll_rest c) (replicate n c) = (ll_rest c, replicate n 0)"
  by (rule filter_run_at_rest) (simp_all add: at_rest_def ll_rest_def ll_filter_init_def)

lemma ll_rest_tc: "TC_samples (ll_rest c) = 7"
  by (simp add: ll_rest_def ll_filter_init_tc)

lemma lp_filter_den: "1 + a1 lp_filter_init + a2 lp_filter_init \<noteq> 0"
  by (simp add: lp_filter_init_def)

subsection \<open>Properties of the filter\<close>

text \<open>
  C27. The state-passing filter computes the difference equation of \<open>pedometer.h\<close>:
  with the inputs and outputs extended on the left by the two histories held in the
  filter state, the \<open>n\<close>-th output is
  \<open>b0 x(n) + b1 x(n-1) + b2 x(n-2) - a1 y(n-1) - a2 y(n-2)\<close>.
\<close>

theorem filter_run_difference_equation:
  assumes "n < length xs"
  shows "let xe = [prev_prev_in f, prev_in f] @ xs;
             ye = [prev_prev_out f, prev_out f] @ snd (filter_run f xs)
         in ye ! (n + 2) = b0 f * xe ! (n + 2) + b1 f * xe ! (n + 1) + b2 f * xe ! n
                           - a1 f * ye ! (n + 1) - a2 f * ye ! n"
  using assms
proof (induction xs arbitrary: f n)
  case Nil
  then show ?case by simp
next
  case (Cons x xs)
  show ?case
  proof (cases n)
    case 0
    then show ?thesis by (simp add: apply_filter_def Let_def split_def)
  next
    case (Suc m)
    let ?f1 = "fst (apply_filter f x)"
    from Cons.prems Suc have "m < length xs" by simp
    then have IH: "let xe = [prev_prev_in ?f1, prev_in ?f1] @ xs;
             ye = [prev_prev_out ?f1, prev_out ?f1] @ snd (filter_run ?f1 xs)
         in ye ! (m + 2) = b0 ?f1 * xe ! (m + 2) + b1 ?f1 * xe ! (m + 1) + b2 ?f1 * xe ! m
                           - a1 ?f1 * ye ! (m + 1) - a2 ?f1 * ye ! m"
      by (rule Cons.IH)
    with Suc show ?thesis
      by (cases m) (simp_all add: Let_def split_def nth_Cons')
  qed
qed

theorem filter_run_difference_equation_witness:
  "0 < length [1 :: float] \<and>
   snd (filter_run ll_filter_init [1]) ! 0 = b0 ll_filter_init * 1"
  using filter_run_difference_equation [of 0 "[1]" ll_filter_init]
  by (simp add: ll_filter_init_def apply_filter_def)

text \<open>
  C28. The low-pass smoother at rest at a constant input \<open>c\<close> stays at rest and outputs
  \<open>dc_gain * c\<close> at every sample, and its DC gain is 1 to within \<open>2e-6\<close>.
\<close>

theorem lp_filter_steady_state:
  "filter_run (lp_rest c) (replicate n c) = (lp_rest c, replicate n (dc_gain lp_filter_init * c)) \<and>
   \<bar>dc_gain lp_filter_init - 1\<bar> < 0.000002"
proof
  show "filter_run (lp_rest c) (replicate n c) = (lp_rest c, replicate n (dc_gain lp_filter_init * c))"
  proof (rule filter_run_at_rest)
    show "at_rest (lp_rest c) c (dc_gain lp_filter_init * c)"
      by (simp add: lp_rest_def at_rest_def)
    have "dc_gain lp_filter_init * c =
          (b0 lp_filter_init + b1 lp_filter_init + b2 lp_filter_init) * c
          - (a1 lp_filter_init + a2 lp_filter_init) * (dc_gain lp_filter_init * c)"
      by (rule dc_gain_fixed [OF lp_filter_den])
    then show "dc_gain lp_filter_init * c =
          (b0 (lp_rest c) + b1 (lp_rest c) + b2 (lp_rest c)) * c
          - (a1 (lp_rest c) + a2 (lp_rest c)) * (dc_gain lp_filter_init * c)"
      by (simp add: lp_rest_def)
  qed
  show "\<bar>dc_gain lp_filter_init - 1\<bar> < 0.000002"
    by (simp add: lp_filter_init_def dc_gain_def)
qed

text \<open>
  The group delays \<open>main\<close> computes at 104 Hz are 8 samples for the smoother and
  7 for the derivative filter, and every delay \<open>tc_samples\<close> returns is at most
  \<open>MAX_TC_SAMPLES\<close>, the size of the overlap region of \<open>AccFilt\<close> and \<open>TimeStamps\<close>.
\<close>

lemma tc_samples_bounds:
  "TC_samples lp_filter_init = 8 \<and> TC_samples ll_filter_init = 7 \<and>
   unat (tc_samples tau) \<le> MAX_TC_SAMPLES"
proof (intro conjI)
  show "TC_samples lp_filter_init = 8"
    by (simp add: lp_filter_init_def tc_samples_def pedo_consts)
  show "TC_samples ll_filter_init = 7"
    by (simp add: ll_filter_init_def tc_samples_def pedo_consts)
  show "unat (tc_samples tau) \<le> MAX_TC_SAMPLES"
    by (simp add: tc_samples_def Let_def word_le_nat_alt not_less)
qed

end
