(* ===== verification/Preproc.thy ===== *)
theory Preproc
  imports IIR_Filter
begin

text \<open>
  The front end \<open>step_algo_preproc\<close> of \<open>pedometer.c\<close>: each sample's y-axis
  acceleration is smoothed by the low-pass filter \<open>lp_filter_y\<close> and stored, with its
  timestamp, in the frame buffer \<open>AccBuff\<close> at index \<open>count\<close> (a function-local
  static); when \<open>SAMP_BUFF_LEN\<close> samples are stored, the function returns 1 and
  resets \<open>count\<close>. Only the two rows of \<open>AccBuff\<close> the program uses are modelled:
  \<open>AccBuff[CHY]\<close> (\<open>AccBuff_y\<close>) and \<open>AccBuff[CHZ+1]\<close> (\<open>AccBuff_ts\<close>); the rows
  \<open>CHX\<close> and \<open>CHZ\<close> are never written or read (\<open>Frame_Buffer\<close> proves the two-row
  state a refinement of the whole array). The x- and z-axis filters are set up by
  \<open>main\<close> but never applied, so they are not part of the state.
  The lemmas show the bound on \<open>count\<close>, which sample raises the flag, and that a run of
  \<open>SAMP_BUFF_LEN\<close> samples from an empty buffer stores exactly the smoothed frame.
\<close>

record preproc_state =
  lp_filter_y :: filter_t
  AccBuff_y :: "float list"
  AccBuff_ts :: "float list"
  buf_count :: uint

definition preproc_init :: preproc_state where
  "preproc_init =
     \<lparr>lp_filter_y = lp_filter_init, AccBuff_y = replicate SAMP_BUFF_LEN 0,
      AccBuff_ts = replicate SAMP_BUFF_LEN 0, buf_count = 0\<rparr>"

text \<open>
  \<open>step_algo_preproc\<close>: the new state and the return value \<open>ret_val\<close>. The x- and
  z-axis and gyroscope arguments are accepted and ignored, as in the C function.
\<close>

definition step_algo_preproc ::
  "preproc_state \<Rightarrow> float \<Rightarrow> float \<Rightarrow> float \<Rightarrow> float \<Rightarrow> float \<Rightarrow> float \<Rightarrow> float \<Rightarrow> preproc_state \<times> uint" where
  "step_algo_preproc st timestamp arx ary arz grx gry grz =
     (let (lp', ary_flt) = apply_filter (lp_filter_y st) ary;
          i = unat (buf_count st);
          st1 = st\<lparr>lp_filter_y := lp', AccBuff_y := (AccBuff_y st)[i := ary_flt],
                   AccBuff_ts := (AccBuff_ts st)[i := timestamp]\<rparr>;
          count = buf_count st + 1
      in if count = word_of_nat SAMP_BUFF_LEN then (st1\<lparr>buf_count := 0\<rparr>, 1)
         else (st1\<lparr>buf_count := count\<rparr>, 0))"

text \<open>Well-formed buffer state: both rows have length \<open>SAMP_BUFF_LEN\<close> and \<open>count\<close> indexes them.\<close>

definition preproc_wf :: "preproc_state \<Rightarrow> bool" where
  "preproc_wf st \<longleftrightarrow>
     length (AccBuff_y st) = SAMP_BUFF_LEN \<and> length (AccBuff_ts st) = SAMP_BUFF_LEN \<and>
     unat (buf_count st) < SAMP_BUFF_LEN"

text \<open>Pushing a list of (timestamp, ary) samples; the flags returned, in order.\<close>

fun preproc_run :: "preproc_state \<Rightarrow> (float \<times> float) list \<Rightarrow> preproc_state \<times> uint list" where
  "preproc_run st [] = (st, [])"
| "preproc_run st ((t, y) # xs) =
     (let r = step_algo_preproc st t 0 y 0 0 0 0; rest = preproc_run (fst r) xs
      in (fst rest, snd r # snd rest))"

subsection \<open>Lemmas\<close>

lemma preproc_init_wf: "preproc_wf preproc_init"
  by (simp add: preproc_wf_def preproc_init_def)

lemma step_algo_preproc_fields:
  "lp_filter_y (fst (step_algo_preproc st t ax ay az gx gy gz)) = fst (apply_filter (lp_filter_y st) ay)"
  "AccBuff_y (fst (step_algo_preproc st t ax ay az gx gy gz)) =
     (AccBuff_y st)[unat (buf_count st) := snd (apply_filter (lp_filter_y st) ay)]"
  "AccBuff_ts (fst (step_algo_preproc st t ax ay az gx gy gz)) =
     (AccBuff_ts st)[unat (buf_count st) := t]"
  by (simp_all add: step_algo_preproc_def split_def Let_def)

text \<open>The x- and z-axis and gyroscope arguments do not affect the result.\<close>

lemma step_algo_preproc_ignores:
  "step_algo_preproc st t ax ay az gx gy gz = step_algo_preproc st t 0 ay 0 0 0 0"
  by (simp add: step_algo_preproc_def)

lemma step_algo_preproc_count:
  "buf_count (fst (step_algo_preproc st t ax ay az gx gy gz)) =
     (if buf_count st + 1 = word_of_nat SAMP_BUFF_LEN then 0 else buf_count st + 1) \<and>
   snd (step_algo_preproc st t ax ay az gx gy gz) =
     (if buf_count st + 1 = word_of_nat SAMP_BUFF_LEN then 1 else 0)"
  by (simp add: step_algo_preproc_def split_def Let_def)

lemma count_plus_one:
  assumes "unat (c :: uint) < SAMP_BUFF_LEN"
  shows "unat (c + 1) = Suc (unat c) \<and>
         (c + 1 = word_of_nat SAMP_BUFF_LEN \<longleftrightarrow> Suc (unat c) = SAMP_BUFF_LEN)"
proof -
  from assms have u: "unat (c + 1) = Suc (unat c)" by (intro unat_incr_small) simp
  have "c + 1 = word_of_nat SAMP_BUFF_LEN \<longleftrightarrow>
        unat (c + 1) = unat (word_of_nat SAMP_BUFF_LEN :: uint)"
    by (simp only: word_unat_eq_iff)
  also have "\<dots> \<longleftrightarrow> Suc (unat c) = SAMP_BUFF_LEN" using u by simp
  finally show ?thesis using u by simp
qed

text \<open>One call of \<open>step_algo_preproc\<close>: \<open>count\<close> advances modulo \<open>SAMP_BUFF_LEN\<close>, and the flag is raised when it wraps.\<close>

lemma step_algo_preproc_step:
  assumes "preproc_wf st"
  shows "preproc_wf (fst (step_algo_preproc st t ax ay az gx gy gz)) \<and>
         unat (buf_count (fst (step_algo_preproc st t ax ay az gx gy gz))) =
           Suc (unat (buf_count st)) mod SAMP_BUFF_LEN \<and>
         snd (step_algo_preproc st t ax ay az gx gy gz) =
           (if Suc (unat (buf_count st)) = SAMP_BUFF_LEN then 1 else 0)"
proof -
  from assms have c: "unat (buf_count st) < SAMP_BUFF_LEN" by (simp add: preproc_wf_def)
  note cnt = count_plus_one [OF c] step_algo_preproc_count [of st t ax ay az gx gy gz]
  show ?thesis
  proof (cases "Suc (unat (buf_count st)) = SAMP_BUFF_LEN")
    case True
    with cnt assms show ?thesis by (simp add: preproc_wf_def step_algo_preproc_fields)
  next
    case False
    with cnt c assms show ?thesis by (simp add: preproc_wf_def step_algo_preproc_fields)
  qed
qed

lemma preproc_run_append:
  "preproc_run st (xs @ ys) =
     (let (s1, r1) = preproc_run st xs; (s2, r2) = preproc_run s1 ys in (s2, r1 @ r2))"
  by (induction st xs rule: preproc_run.induct) (simp_all add: Let_def split_def)

text \<open>Fewer samples than fit in the buffer: they are stored after the first \<open>count\<close> entries, no flag is raised.\<close>

lemma preproc_run_partial:
  assumes "preproc_wf st" and "unat (buf_count st) + length xs < SAMP_BUFF_LEN"
  shows "preproc_wf (fst (preproc_run st xs)) \<and>
         unat (buf_count (fst (preproc_run st xs))) = unat (buf_count st) + length xs \<and>
         snd (preproc_run st xs) = replicate (length xs) 0 \<and>
         lp_filter_y (fst (preproc_run st xs)) = fst (filter_run (lp_filter_y st) (map snd xs)) \<and>
         AccBuff_y (fst (preproc_run st xs)) =
           take (unat (buf_count st)) (AccBuff_y st) @ snd (filter_run (lp_filter_y st) (map snd xs))
           @ drop (unat (buf_count st) + length xs) (AccBuff_y st) \<and>
         AccBuff_ts (fst (preproc_run st xs)) =
           take (unat (buf_count st)) (AccBuff_ts st) @ map fst xs
           @ drop (unat (buf_count st) + length xs) (AccBuff_ts st)"
  using assms
proof (induction xs arbitrary: st)
  case Nil
  then show ?case by (simp add: preproc_wf_def)
next
  case (Cons x xs)
  obtain t y where x: "x = (t, y)" by (cases x)
  let ?st1 = "fst (step_algo_preproc st t 0 y 0 0 0 0)"
  let ?c = "unat (buf_count st)"
  from Cons.prems have c: "Suc ?c < SAMP_BUFF_LEN" by simp
  from step_algo_preproc_step [OF Cons.prems(1), of t 0 y 0 0 0 0] c
  have wf1: "preproc_wf ?st1" and c1: "unat (buf_count ?st1) = Suc ?c"
    and r1: "snd (step_algo_preproc st t 0 y 0 0 0 0) = 0"
    by (auto simp del: SAMP_BUFF_LEN_val)
  from Cons.prems c1 have "unat (buf_count ?st1) + length xs < SAMP_BUFF_LEN" by simp
  note IH = Cons.IH [OF wf1 this]
  from Cons.prems(1) c have len: "?c < length (AccBuff_y st)" "?c < length (AccBuff_ts st)"
    by (simp_all add: preproc_wf_def)
  show ?case
    using IH c1 r1 len
    by (simp add: x split_def Let_def step_algo_preproc_fields take_Suc_list_update)
qed

subsection \<open>Properties of the frame buffer\<close>

text \<open>
  C20. Along any sequence of samples the buffer stays well formed (\<open>count\<close> indexes it),
  and the \<open>k\<close>-th call returns 1 exactly when it stores the last entry of a frame:
  when \<open>count + k + 1\<close> is a multiple of \<open>SAMP_BUFF_LEN\<close>; it returns 0 otherwise.
\<close>

theorem preproc_run_flags:
  assumes "preproc_wf st"
  shows "preproc_wf (fst (preproc_run st xs)) \<and> length (snd (preproc_run st xs)) = length xs \<and>
         (\<forall>k < length xs. snd (preproc_run st xs) ! k =
            (if (unat (buf_count st) + k + 1) mod SAMP_BUFF_LEN = 0 then 1 else 0))"
  using assms
proof (induction xs arbitrary: st)
  case Nil
  then show ?case by simp
next
  case (Cons x xs)
  obtain t y where x: "x = (t, y)" by (cases x)
  let ?st1 = "fst (step_algo_preproc st t 0 y 0 0 0 0)"
  let ?c = "unat (buf_count st)"
  note S = step_algo_preproc_step [OF Cons.prems, of t 0 y 0 0 0 0]
  from Cons.prems have c: "?c < SAMP_BUFF_LEN" by (simp add: preproc_wf_def)
  from S have IH: "preproc_wf (fst (preproc_run ?st1 xs)) \<and>
      length (snd (preproc_run ?st1 xs)) = length xs \<and>
      (\<forall>k < length xs. snd (preproc_run ?st1 xs) ! k =
        (if (Suc ?c mod SAMP_BUFF_LEN + k + 1) mod SAMP_BUFF_LEN = 0 then 1 else 0))"
    using Cons.IH [of ?st1] by simp
  have shift: "Suc (Suc ?c mod SAMP_BUFF_LEN + j) mod SAMP_BUFF_LEN =
               Suc (Suc (?c + j)) mod SAMP_BUFF_LEN" for j
    by (metis add_Suc add_Suc_right mod_add_left_eq)
  have first: "(Suc ?c = SAMP_BUFF_LEN) = ((?c + 0 + 1) mod SAMP_BUFF_LEN = 0)"
  proof (cases "Suc ?c < SAMP_BUFF_LEN")
    case True
    then show ?thesis by (simp del: SAMP_BUFF_LEN_val)
  next
    case False
    with c have "Suc ?c = SAMP_BUFF_LEN" by (simp del: SAMP_BUFF_LEN_val)
    then show ?thesis by simp
  qed
  show ?case
  proof (intro conjI allI impI)
    show "preproc_wf (fst (preproc_run st (x # xs)))" using IH by (simp add: x Let_def)
    show "length (snd (preproc_run st (x # xs))) = length (x # xs)" using IH by (simp add: x Let_def)
  next
    fix k assume k: "k < length (x # xs)"
    show "snd (preproc_run st (x # xs)) ! k =
          (if (?c + k + 1) mod SAMP_BUFF_LEN = 0 then 1 else 0)"
    proof (cases k)
      case 0
      then show ?thesis using S first by (simp add: x Let_def del: SAMP_BUFF_LEN_val)
    next
      case (Suc j)
      with k IH show ?thesis by (simp add: x Let_def shift del: SAMP_BUFF_LEN_val)
    qed
  qed
qed

theorem preproc_run_flags_witness:
  "preproc_wf (fst (preproc_run preproc_init [(1, 9.81)])) \<and>
   snd (preproc_run preproc_init [(1, 9.81)]) ! 0 = 0"
  using preproc_run_flags [OF preproc_init_wf, of "[(1, 9.81)]"]
  by (simp add: preproc_init_def)

text \<open>
  C25. A whole frame: from an empty buffer, \<open>SAMP_BUFF_LEN\<close> samples leave \<open>count\<close> at 0,
  raise the flag on the last sample only, and leave in \<open>AccBuff\<close> exactly the
  low-pass-filtered y-axis values of the frame (with the filter state that produced them)
  and the frame's timestamps.
\<close>

theorem preproc_run_frame:
  assumes "preproc_wf st" and "buf_count st = 0" and "length xs = SAMP_BUFF_LEN"
  shows "preproc_wf (fst (preproc_run st xs)) \<and> buf_count (fst (preproc_run st xs)) = 0 \<and>
         snd (preproc_run st xs) = replicate (SAMP_BUFF_LEN - 1) 0 @ [1] \<and>
         (lp_filter_y (fst (preproc_run st xs)), AccBuff_y (fst (preproc_run st xs))) =
           filter_run (lp_filter_y st) (map snd xs) \<and>
         AccBuff_ts (fst (preproc_run st xs)) = map fst xs"
proof -
  from assms(3) obtain ys x where xs: "xs = ys @ [x]" and ys: "length ys = SAMP_BUFF_LEN - 1"
    by (metis SAMP_BUFF_LEN_val append_butlast_last_id diff_Suc_1 length_butlast
        list.size(3) zero_neq_numeral)
  obtain t y where x: "x = (t, y)" by (cases x)
  let ?s1 = "fst (preproc_run st ys)"
  from assms(2) ys have "unat (buf_count st) + length ys < SAMP_BUFF_LEN" by simp
  note P = preproc_run_partial [OF assms(1) this]
  then have wf1: "preproc_wf ?s1" and c1: "Suc (unat (buf_count ?s1)) = SAMP_BUFF_LEN"
    using assms(2) ys by simp_all
  note F = step_algo_preproc_step [OF wf1, of t 0 y 0 0 0 0]
  have cnt: "buf_count (fst (step_algo_preproc ?s1 t 0 y 0 0 0 0)) = 0"
    using step_algo_preproc_count [of ?s1 t 0 y 0 0 0 0] count_plus_one [of "buf_count ?s1"] c1
    by simp
  from assms(1) have len: "length (AccBuff_y st) = SAMP_BUFF_LEN" "length (AccBuff_ts st) = SAMP_BUFF_LEN"
    by (simp_all add: preproc_wf_def)
  show ?thesis
    using P F cnt c1 assms(2) ys len
    by (simp add: xs x preproc_run_append split_def Let_def step_algo_preproc_fields
        filter_run_snoc list_update_append drop_last_singleton)
qed

theorem preproc_run_frame_witness:
  "buf_count (fst (preproc_run preproc_init (replicate SAMP_BUFF_LEN (1, 9.81)))) = 0 \<and>
   AccBuff_ts (fst (preproc_run preproc_init (replicate SAMP_BUFF_LEN (1, 9.81)))) =
     replicate SAMP_BUFF_LEN 1"
  using preproc_run_frame [OF preproc_init_wf, of "replicate SAMP_BUFF_LEN (1, 9.81)"]
  by (simp add: preproc_init_def del: SAMP_BUFF_LEN_val)

end
