(* ===== verification/Motion.thy ===== *)
theory Motion
  imports Prelude
begin

text \<open>
  The motion classes of \<open>pedometer.h\<close> (\<open>motion_type_t\<close>), the algorithm output
  (\<open>algo_out_t\<close>), the per-class step counters (the globals \<open>num_steps_walk\<close>,
  \<open>num_steps_run\<close>, \<open>num_steps_hop\<close> of \<open>pedometer.c\<close>) and the classification that
  ends \<open>step_algo_run\<close> (lines 391--424), together with the labels \<open>main\<close> prints.
  The abstract specification is the decision table of the specification (\<open>motion_class\<close>)
  and the counter it credits (\<open>tally_add\<close>); the refinement lemma shows that the nested
  conditionals of the code implement it.
\<close>

datatype motion_type_t = STATIC | WALK | HOP | RUN

text \<open>The enumeration values of \<open>motion_type_t\<close>, printed as \<open>step_type_num\<close>.\<close>

fun motion_type_num :: "motion_type_t \<Rightarrow> nat" where
  "motion_type_num STATIC = 0"
| "motion_type_num WALK = 1"
| "motion_type_num HOP = 2"
| "motion_type_num RUN = 3"

record algo_out_t =
  step_count :: uint
  step_type :: motion_type_t
  prev_max :: float
  prev_min :: float
  prev_max_ts :: float
  prev_min_ts :: float

record step_tally =
  num_steps_walk :: uint
  num_steps_run :: uint
  num_steps_hop :: uint

definition SMALL_AMP :: float where [pedo_consts]: "SMALL_AMP = 5.0"
definition LARGE_AMP :: float where [pedo_consts]: "LARGE_AMP = 15.0"
definition SLOW_FREQ :: float where [pedo_consts]: "SLOW_FREQ = 0.5"
definition FAST_FREQ :: float where [pedo_consts]: "FAST_FREQ = 2.2"

subsection \<open>The classification of \<open>step_algo_run\<close>\<close>

text \<open>
  Lines 391--424: the estimated amplitude and frequency choose the label, and the
  steps of this run (\<open>count_min_det\<close>) are credited to the counter of that label.
\<close>

definition classify_step ::
  "float \<Rightarrow> float \<Rightarrow> uint \<Rightarrow> algo_out_t \<Rightarrow> step_tally \<Rightarrow> algo_out_t \<times> step_tally" where
  "classify_step amp_est freq_est count_min_det out t =
     (if amp_est \<le> SMALL_AMP then
        (if freq_est \<le> SLOW_FREQ then (out\<lparr>step_type := STATIC\<rparr>, t)
         else (out\<lparr>step_type := WALK\<rparr>, t\<lparr>num_steps_walk := num_steps_walk t + count_min_det\<rparr>))
      else if amp_est \<ge> LARGE_AMP then
        (if freq_est \<ge> FAST_FREQ then
           (out\<lparr>step_type := RUN\<rparr>, t\<lparr>num_steps_run := num_steps_run t + count_min_det\<rparr>)
         else (out\<lparr>step_type := HOP\<rparr>, t\<lparr>num_steps_hop := num_steps_hop t + count_min_det\<rparr>))
      else
        (if freq_est \<ge> FAST_FREQ then
           (out\<lparr>step_type := RUN\<rparr>, t\<lparr>num_steps_run := num_steps_run t + count_min_det\<rparr>)
         else (out\<lparr>step_type := WALK\<rparr>, t\<lparr>num_steps_walk := num_steps_walk t + count_min_det\<rparr>)))"

text \<open>The labels \<open>main\<close> prints for each class (\<open>step_type\<close> strings of lines 172--179).\<close>

fun step_type_name :: "motion_type_t \<Rightarrow> string" where
  "step_type_name STATIC = ''STATIONARY''"
| "step_type_name WALK = ''WALKING''"
| "step_type_name RUN = ''RUNNING''"
| "step_type_name HOP = ''HOPPING''"

subsection \<open>Abstract specification\<close>

text \<open>
  The decision table of the specification, read row by row: stationary for a small
  amplitude at a slow rate, hopping for a large amplitude below the fast rate, running
  at the fast rate unless the amplitude is small, walking otherwise.
\<close>

definition motion_class :: "float \<Rightarrow> float \<Rightarrow> motion_type_t" where
  "motion_class amp freq =
     (if amp \<le> SMALL_AMP \<and> freq \<le> SLOW_FREQ then STATIC
      else if LARGE_AMP \<le> amp \<and> freq < FAST_FREQ then HOP
      else if SMALL_AMP < amp \<and> FAST_FREQ \<le> freq then RUN
      else WALK)"

text \<open>Crediting \<open>n\<close> steps to the counter of a class; stationary steps have none.\<close>

fun tally_add :: "motion_type_t \<Rightarrow> uint \<Rightarrow> step_tally \<Rightarrow> step_tally" where
  "tally_add STATIC n t = t"
| "tally_add WALK n t = t\<lparr>num_steps_walk := num_steps_walk t + n\<rparr>"
| "tally_add RUN n t = t\<lparr>num_steps_run := num_steps_run t + n\<rparr>"
| "tally_add HOP n t = t\<lparr>num_steps_hop := num_steps_hop t + n\<rparr>"

definition tally_total :: "step_tally \<Rightarrow> uint" where
  "tally_total t = num_steps_walk t + num_steps_run t + num_steps_hop t"

text \<open>The three counters summed without wrap-around, to bound them.\<close>

definition tally_sum :: "step_tally \<Rightarrow> nat" where
  "tally_sum t = unat (num_steps_walk t) + unat (num_steps_run t) + unat (num_steps_hop t)"

lemma tally_total_add:
  "tally_total (tally_add c n t) = (if c = STATIC then tally_total t else tally_total t + n)"
  by (cases c) (simp_all add: tally_total_def algebra_simps)

lemma classify_step_total:
  "tally_total (snd (classify_step amp freq n out t)) =
     (if amp \<le> SMALL_AMP \<and> freq \<le> SLOW_FREQ then tally_total t else tally_total t + n)"
  by (simp add: classify_step_def tally_total_def algebra_simps)

lemma classify_step_out:
  "fst (classify_step amp freq n out t) = out\<lparr>step_type := motion_class amp freq\<rparr>"
  by (auto simp: classify_step_def motion_class_def pedo_consts)

lemma tally_add_zero [simp]: "tally_add c 0 t = t"
  by (cases c) simp_all

lemma classify_step_zero: "snd (classify_step amp freq 0 out t) = t"
  by (simp add: classify_step_def)

lemma classify_step_tally: "snd (classify_step amp freq n out t) = tally_add (motion_class amp freq) n t"
  by (auto simp: classify_step_def motion_class_def pedo_consts)

lemma tally_add_sum: "tally_sum (tally_add c n t) \<le> tally_sum t + unat n"
  using unat_add_le [of "num_steps_walk t" n] unat_add_le [of "num_steps_run t" n] unat_add_le [of "num_steps_hop t" n]
  by (cases c) (simp_all add: tally_sum_def)

lemma tally_add_mono:
  assumes "tally_sum t + unat n < 2 ^ 32"
  shows "unat (num_steps_walk t) \<le> unat (num_steps_walk (tally_add c n t)) \<and>
         unat (num_steps_run t) \<le> unat (num_steps_run (tally_add c n t)) \<and>
         unat (num_steps_hop t) \<le> unat (num_steps_hop (tally_add c n t))"
  using assms unat_add_small [of "num_steps_walk t" n] unat_add_small [of "num_steps_run t" n]
    unat_add_small [of "num_steps_hop t" n]
  by (cases c) (simp_all add: tally_sum_def)

lemma motion_class_STATIC_iff:
  "motion_class amp freq = STATIC \<longleftrightarrow> amp \<le> SMALL_AMP \<and> freq \<le> SLOW_FREQ"
  by (simp add: motion_class_def)

subsection \<open>Refinement\<close>

text \<open>
  C2. The nested conditionals of \<open>step_algo_run\<close> implement the decision table: the
  label written is \<open>motion_class amp_est freq_est\<close>, and the steps of the run are
  credited to the counter of exactly that class (to none when it is stationary).
\<close>

theorem classify_step_refines:
  "classify_step amp_est freq_est n out t =
     (out\<lparr>step_type := motion_class amp_est freq_est\<rparr>,
      tally_add (motion_class amp_est freq_est) n t)"
  by (auto simp: classify_step_def motion_class_def pedo_consts)

end
