(* ===== verification/Detector.thy ===== *)
theory Detector
  imports Preproc Motion
begin

text \<open>
  The step detector \<open>step_algo_run\<close> of \<open>pedometer.c\<close> (lines 233--426). Its state
  is the lead-lag filter \<open>ll_filter_y\<close>, the function's static variables
  (\<open>prev_amp_est\<close>, \<open>prev_freq_est\<close>, \<open>amp_est_hold\<close>, \<open>freq_est_hold\<close>,
  \<open>prevAccDer\<close> and the arrays \<open>AccFilt\<close>, \<open>TimeStamps\<close>, \<open>AccDer\<close>) and the
  per-class counters, collected in the record \<open>algo_state\<close>; the output record
  \<open>algo_out_t\<close> is passed by pointer and returned updated. The function is four loops
  and two estimates:
  \<^item> \<open>fill_iter\<close> (lines 280--287) runs the derivative filter over the frame and copies
    the frame behind the \<open>TC_samples\<close> entries kept from the previous frame;
  \<^item> \<open>scan_iter\<close> (lines 291--344) looks for a falling zero crossing of the derivative
    (a maximum, \<open>detect_max\<close>) or a rising one (a minimum, \<open>detect_min\<close>),
    depending on which extremum came last; the loop's local variables are \<open>scan_st\<close>;
  \<^item> \<open>amp_estimate\<close> and \<open>freq_estimate\<close> (lines 346--373) average the detections
    or hold the previous estimate, at most \<open>BUFF_FACTOR\<close> runs long;
  \<^item> \<open>save_tail_iter\<close> (lines 376--379) keeps the last \<open>TC_samples\<close> entries;
  \<^item> the output update and \<open>classify_step\<close> (lines 381--424).
  The locals \<open>new_max_val\<close>, \<open>new_max_ts\<close>, \<open>new_min_val\<close>, \<open>new_min_ts\<close> are written
  before every read within one iteration, so they are let-bound values, not loop state.
\<close>

definition EPSILON :: float where [pedo_consts]: "EPSILON = 0.000001"
definition NO_DETECT_DUR_SEC :: float where [pedo_consts]: "NO_DETECT_DUR_SEC = 0.2"
definition CLOSE_TO_ZERO :: float where [pedo_consts]: "CLOSE_TO_ZERO = 1.5"
definition MAX_TIME_PERIOD_SEC :: float where [pedo_consts]: "MAX_TIME_PERIOD_SEC = 1.5"

record algo_state =
  ll_filter_y :: filter_t
  prev_amp_est :: float
  prev_freq_est :: float
  amp_est_hold :: uint
  freq_est_hold :: uint
  prevAccDer :: float
  AccFilt :: "float list"
  TimeStamps :: "float list"
  AccDer :: "float list"
  tally :: step_tally

text \<open>The statics as initialised in their declarations, and the filter and counters as \<open>main\<close> sets them.\<close>

definition algo_init :: algo_state where
  "algo_init =
     \<lparr>ll_filter_y = ll_filter_init, prev_amp_est = 0, prev_freq_est = 0,
      amp_est_hold = 0, freq_est_hold = 0, prevAccDer = 0,
      AccFilt = replicate (SAMP_BUFF_LEN + MAX_TC_SAMPLES) 0,
      TimeStamps = replicate (SAMP_BUFF_LEN + MAX_TC_SAMPLES) 0,
      AccDer = replicate SAMP_BUFF_LEN 0,
      tally = \<lparr>num_steps_walk = 0, num_steps_run = 0, num_steps_hop = 0\<rparr>\<rparr>"

subsection \<open>Derivative and extended window (lines 280--287)\<close>

definition fill_iter :: "float list \<Rightarrow> float list \<Rightarrow> nat \<Rightarrow> nat \<Rightarrow> algo_state \<Rightarrow> algo_state" where
  "fill_iter buf_y buf_ts tc i st =
     (let (ll', d) = apply_filter (ll_filter_y st) (buf_y ! i)
      in st\<lparr>ll_filter_y := ll', AccDer := (AccDer st)[i := d],
            AccFilt := (AccFilt st)[tc + i := buf_y ! i],
            TimeStamps := (TimeStamps st)[tc + i := buf_ts ! i]\<rparr>)"

text \<open>The whole loop, with the derivative filter's delay \<open>tc\<close> (\<open>TC_samples\<close>) as the offset.\<close>

definition fill_frame :: "float list \<Rightarrow> float list \<Rightarrow> nat \<Rightarrow> algo_state \<Rightarrow> algo_state" where
  "fill_frame buf_y buf_ts tc st = for_loop 0 SAMP_BUFF_LEN (fill_iter buf_y buf_ts tc) st"

subsection \<open>The zero-crossing scan (lines 291--344)\<close>

text \<open>
  The loop's variables: \<open>prev_max_val\<close>, \<open>prev_min_val\<close>, the locals
  \<open>prev_max_ts\<close> and \<open>prev_min_ts\<close> (here \<open>max_ts\<close>, \<open>min_ts\<close>), the accumulators,
  the two detection counters and the static \<open>prevAccDer\<close> (here \<open>prev_acc_der\<close>).
\<close>

record scan_st =
  prev_max_val :: float
  max_ts :: float
  prev_min_val :: float
  min_ts :: float
  avg_max_val :: float
  avg_min_val :: float
  avg_time_period :: float
  amp_est :: float
  count_max_det :: uint
  count_min_det :: uint
  prev_acc_der :: float

definition scan_init :: "algo_out_t \<Rightarrow> float \<Rightarrow> scan_st" where
  "scan_init out pder =
     \<lparr>prev_max_val = prev_max out, max_ts = prev_max_ts out,
      prev_min_val = prev_min out, min_ts = prev_min_ts out,
      avg_max_val = 0, avg_min_val = 0, avg_time_period = 0, amp_est = 0,
      count_max_det = 0, count_min_det = 0, prev_acc_der = pder\<rparr>"

text \<open>Lines 299--316: a falling zero crossing at value \<open>v\<close> (\<open>AccFilt[i]\<close>) and time \<open>t\<close> (\<open>TimeStamps[i]\<close>).\<close>

definition detect_max :: "float \<Rightarrow> float \<Rightarrow> scan_st \<Rightarrow> scan_st" where
  "detect_max v t s =
     (if t - max_ts s > NO_DETECT_DUR_SEC then
        (if \<bar>v\<bar> > CLOSE_TO_ZERO then
           (let s1 = (if t > max_ts s + MAX_TIME_PERIOD_SEC
                      then s\<lparr>max_ts := t - MAX_TIME_PERIOD_SEC\<rparr> else s)
            in if v - prev_min_val s1 > CLOSE_TO_ZERO then
                 s1\<lparr>avg_time_period := avg_time_period s1 + (t - max_ts s1),
                    avg_max_val := avg_max_val s1 + v,
                    count_max_det := count_max_det s1 + 1,
                    max_ts := t, prev_max_val := v\<rparr>
               else s1)
         else s)
      else s)"

text \<open>Lines 323--341: a rising zero crossing at value \<open>v\<close> and time \<open>t\<close>; a confirmed minimum is a step.\<close>

definition detect_min :: "float \<Rightarrow> float \<Rightarrow> scan_st \<Rightarrow> scan_st" where
  "detect_min v t s =
     (if t - min_ts s > NO_DETECT_DUR_SEC then
        (let s1 = (if t > min_ts s + MAX_TIME_PERIOD_SEC
                   then s\<lparr>min_ts := t - MAX_TIME_PERIOD_SEC\<rparr> else s)
         in if prev_max_val s1 - v > CLOSE_TO_ZERO then
              s1\<lparr>avg_time_period := avg_time_period s1 + (t - min_ts s1),
                 avg_min_val := avg_min_val s1 + v,
                 amp_est := amp_est s1 + (prev_max_val s1 - v),
                 count_min_det := count_min_det s1 + 1,
                 min_ts := t, prev_min_val := v\<rparr>
            else s1)
      else s)"

text \<open>One iteration of the scan (\<open>delta = 1\<close>): the previous derivative is the static \<open>prevAccDer\<close> at \<open>i = 0\<close>.\<close>

definition scan_iter :: "float list \<Rightarrow> float list \<Rightarrow> float list \<Rightarrow> nat \<Rightarrow> scan_st \<Rightarrow> scan_st" where
  "scan_iter acc_der acc_filt time_stamps i s0 =
     (let s = (if i \<ge> 1 then s0\<lparr>prev_acc_der := acc_der ! (i - 1)\<rparr> else s0)
      in if max_ts s \<le> min_ts s then
           (if acc_der ! i < - EPSILON \<and> prev_acc_der s \<ge> 0
            then detect_max (acc_filt ! i) (time_stamps ! i) s else s)
         else
           (if acc_der ! i > EPSILON \<and> prev_acc_der s \<le> 0
            then detect_min (acc_filt ! i) (time_stamps ! i) s else s))"

text \<open>The whole scan, from the output record's extrema (lines 262--274) over the filled arrays.\<close>

definition scan_frame :: "algo_state \<Rightarrow> algo_out_t \<Rightarrow> scan_st" where
  "scan_frame st out =
     for_loop 0 SAMP_BUFF_LEN (scan_iter (AccDer st) (AccFilt st) (TimeStamps st))
       (scan_init out (prevAccDer st))"

subsection \<open>Estimates (lines 346--373)\<close>

text \<open>
  The amplitude estimate and the new \<open>amp_est_hold\<close>, from the number of minima
  \<open>cmin\<close> (\<open>count_min_det\<close>) and the summed amplitudes (the local \<open>amp_est\<close>).
\<close>

definition amp_estimate :: "uint \<Rightarrow> float \<Rightarrow> float \<Rightarrow> uint \<Rightarrow> float \<times> uint" where
  "amp_estimate cmin amp_sum prev_amp amp_hold =
     (let (a, h) = (if cmin > 0 then (amp_sum / real (unat cmin), 0)
                    else (prev_amp, amp_hold + 1))
      in if h > word_of_nat BUFF_FACTOR then (0, 0) else (a, h))"

text \<open>
  The frequency estimate and the new \<open>freq_est_hold\<close>, from the numbers of maxima
  \<open>cmax\<close> and minima \<open>cmin\<close> and the summed periods (the local \<open>avg_time_period\<close>).
\<close>

definition freq_estimate :: "uint \<Rightarrow> uint \<Rightarrow> float \<Rightarrow> float \<Rightarrow> uint \<Rightarrow> float \<times> uint" where
  "freq_estimate cmax cmin period_sum prev_freq freq_hold =
     (let avg_period =
            (if cmax + cmin > 0 then period_sum / real (unat (cmax + cmin)) else period_sum);
          (f, h) = (if avg_period > EPSILON then (1 / avg_period, 0)
                    else (prev_freq, freq_hold + 1))
      in if h > word_of_nat BUFF_FACTOR then (0, 0) else (f, h))"

subsection \<open>Tail carry (lines 376--379)\<close>

definition save_tail_iter :: "float list \<Rightarrow> float list \<Rightarrow> nat \<Rightarrow> nat \<Rightarrow> algo_state \<Rightarrow> algo_state" where
  "save_tail_iter buf_y buf_ts tc i st =
     st\<lparr>AccFilt := (AccFilt st)[i := buf_y ! (SAMP_BUFF_LEN - tc + i)],
        TimeStamps := (TimeStamps st)[i := buf_ts ! (SAMP_BUFF_LEN - tc + i)]\<rparr>"

definition save_tail :: "float list \<Rightarrow> float list \<Rightarrow> nat \<Rightarrow> algo_state \<Rightarrow> algo_state" where
  "save_tail buf_y buf_ts tc st = for_loop 0 tc (save_tail_iter buf_y buf_ts tc) st"

subsection \<open>The whole run\<close>

text \<open>
  \<open>step_algo_run\<close> on the frame \<open>buf_y\<close> (\<open>AccBuff[CHY]\<close>) with timestamps \<open>buf_ts\<close>
  (\<open>AccBuff[CHZ+1]\<close>).
\<close>

text \<open>Lines 380--383: the statics saved for the next run.\<close>

definition save_statics :: "algo_state \<Rightarrow> float \<Rightarrow> float \<Rightarrow> algo_state" where
  "save_statics st amp freq =
     st\<lparr>prevAccDer := AccDer st ! (SAMP_BUFF_LEN - 1), prev_amp_est := amp, prev_freq_est := freq\<rparr>"

text \<open>Lines 385--390: the extrema of the scan and the steps counted, written to the output record.\<close>

definition update_output :: "scan_st \<Rightarrow> algo_out_t \<Rightarrow> algo_out_t" where
  "update_output s out =
     out\<lparr>prev_max := prev_max_val s, prev_max_ts := max_ts s,
         prev_min := prev_min_val s, prev_min_ts := min_ts s,
         step_count := step_count out + count_min_det s\<rparr>"

definition step_algo_run ::
  "float list \<Rightarrow> float list \<Rightarrow> algo_state \<Rightarrow> algo_out_t \<Rightarrow> algo_state \<times> algo_out_t" where
  "step_algo_run buf_y buf_ts st out =
     (let tc = unat (TC_samples (ll_filter_y st));
          st1 = fill_frame buf_y buf_ts tc st;
          s = scan_frame st1 out;
          (amp, amp_hold) = amp_estimate (count_min_det s) (amp_est s)
                              (prev_amp_est st1) (amp_est_hold st1);
          (freq, freq_hold) = freq_estimate (count_max_det s) (count_min_det s)
                                (avg_time_period s) (prev_freq_est st1) (freq_est_hold st1);
          st2 = save_tail buf_y buf_ts tc st1;
          st3 = (save_statics st2 amp freq)\<lparr>amp_est_hold := amp_hold, freq_est_hold := freq_hold\<rparr>;
          out1 = update_output s out;
          (out2, tally2) = classify_step amp freq (count_min_det s) out1 (tally st3)
      in (st3\<lparr>tally := tally2\<rparr>, out2))"

subsection \<open>Invariants\<close>

text \<open>
  After \<open>i\<close> iterations of the scan: at most \<open>i\<close> detections; every detection added
  a period contribution in \<open>(NO_DETECT_DUR_SEC, MAX_TIME_PERIOD_SEC]\<close> to
  \<open>avg_time_period\<close> (the dead time is tested first, the clamp bounds the gap); every
  minimum added an amplitude above \<open>CLOSE_TO_ZERO\<close> to \<open>amp_est\<close>.
\<close>

definition scan_inv :: "nat \<Rightarrow> scan_st \<Rightarrow> bool" where
  "scan_inv i s \<longleftrightarrow>
     unat (count_max_det s) + unat (count_min_det s) \<le> i \<and>
     NO_DETECT_DUR_SEC * real (unat (count_max_det s) + unat (count_min_det s)) \<le> avg_time_period s \<and>
     avg_time_period s \<le> MAX_TIME_PERIOD_SEC * real (unat (count_max_det s) + unat (count_min_det s)) \<and>
     CLOSE_TO_ZERO * real (unat (count_min_det s)) \<le> amp_est s \<and>
     (0 < unat (count_min_det s) \<longrightarrow> CLOSE_TO_ZERO * real (unat (count_min_det s)) < amp_est s)"

text \<open>
  Well-formed detector state: the array sizes of the declarations of \<open>AccDer\<close>,
  \<open>AccFilt\<close> and \<open>TimeStamps\<close>, and a delay of at most \<open>MAX_TC_SAMPLES\<close>.
\<close>

definition algo_wf :: "algo_state \<Rightarrow> bool" where
  "algo_wf st \<longleftrightarrow>
     length (AccDer st) = SAMP_BUFF_LEN \<and>
     length (AccFilt st) = SAMP_BUFF_LEN + MAX_TC_SAMPLES \<and>
     length (TimeStamps st) = SAMP_BUFF_LEN + MAX_TC_SAMPLES \<and>
     unat (TC_samples (ll_filter_y st)) \<le> MAX_TC_SAMPLES"

text \<open>
  The estimates a run saves for the next one are either 0 (aged out) or measurements: a
  frequency from periods in \<open>[NO_DETECT_DUR_SEC, MAX_TIME_PERIOD_SEC]\<close> and an amplitude
  above the gate \<open>CLOSE_TO_ZERO\<close>.
\<close>

definition est_ok :: "algo_state \<Rightarrow> bool" where
  "est_ok st \<longleftrightarrow>
     (prev_freq_est st = 0 \<or> 1 / MAX_TIME_PERIOD_SEC \<le> prev_freq_est st \<and> prev_freq_est st \<le> 1 / NO_DETECT_DUR_SEC) \<and>
     (prev_amp_est st = 0 \<or> CLOSE_TO_ZERO < prev_amp_est st)"

text \<open>The fill loop after \<open>j\<close> iterations: derivative of the first \<open>j\<close> samples, window filled behind the tail.\<close>

definition fill_inv :: "float list \<Rightarrow> float list \<Rightarrow> nat \<Rightarrow> algo_state \<Rightarrow> nat \<Rightarrow> algo_state \<Rightarrow> bool" where
  "fill_inv buf_y buf_ts tc st j st' \<longleftrightarrow>
     length (AccDer st') = length (AccDer st) \<and> length (AccFilt st') = length (AccFilt st) \<and>
     length (TimeStamps st') = length (TimeStamps st) \<and>
     (ll_filter_y st', take j (AccDer st')) = filter_run (ll_filter_y st) (take j buf_y) \<and>
     take (tc + j) (AccFilt st') = take tc (AccFilt st) @ take j buf_y \<and>
     take (tc + j) (TimeStamps st') = take tc (TimeStamps st) @ take j buf_ts \<and>
     st'\<lparr>ll_filter_y := ll_filter_y st, AccDer := AccDer st, AccFilt := AccFilt st,
         TimeStamps := TimeStamps st\<rparr> = st"

text \<open>The tail loop after \<open>j\<close> iterations.\<close>

definition tail_inv :: "float list \<Rightarrow> float list \<Rightarrow> nat \<Rightarrow> algo_state \<Rightarrow> nat \<Rightarrow> algo_state \<Rightarrow> bool" where
  "tail_inv buf_y buf_ts tc st j st' \<longleftrightarrow>
     length (AccFilt st') = length (AccFilt st) \<and> length (TimeStamps st') = length (TimeStamps st) \<and>
     take j (AccFilt st') = take j (drop (SAMP_BUFF_LEN - tc) buf_y) \<and> drop j (AccFilt st') = drop j (AccFilt st) \<and>
     take j (TimeStamps st') = take j (drop (SAMP_BUFF_LEN - tc) buf_ts) \<and>
     drop j (TimeStamps st') = drop j (TimeStamps st) \<and>
     st'\<lparr>AccFilt := AccFilt st, TimeStamps := TimeStamps st\<rparr> = st"

text \<open>A run in which the scan confirms neither a maximum nor a minimum.\<close>

definition quiet_run :: "float list \<Rightarrow> float list \<Rightarrow> algo_state \<Rightarrow> algo_out_t \<Rightarrow> bool" where
  "quiet_run buf_y buf_ts st out \<longleftrightarrow>
     (let s = scan_frame (fill_frame buf_y buf_ts (unat (TC_samples (ll_filter_y st))) st) out
      in count_max_det s = 0 \<and> count_min_det s = 0)"

text \<open>Consecutive runs, as \<open>main\<close> makes them on successive frames, and the hold-counter
  update of lines 350--357 and 366--373 when a run confirms nothing.\<close>

definition hold_age :: "float \<Rightarrow> uint \<Rightarrow> float \<times> uint" where
  "hold_age v h = (if h + 1 > word_of_nat BUFF_FACTOR then (0, 0) else (v, h + 1))"

fun run_frames :: "algo_state \<Rightarrow> algo_out_t \<Rightarrow> (float list \<times> float list) list \<Rightarrow> algo_state \<times> algo_out_t" where
  "run_frames st out [] = (st, out)"
| "run_frames st out ((b, t) # fs) =
     (let r = step_algo_run b t st out in run_frames (fst r) (snd r) fs)"

fun all_quiet :: "algo_state \<Rightarrow> algo_out_t \<Rightarrow> (float list \<times> float list) list \<Rightarrow> bool" where
  "all_quiet st out [] = True"
| "all_quiet st out ((b, t) # fs) =
     (quiet_run b t st out \<and> (let r = step_algo_run b t st out in all_quiet (fst r) (snd r) fs))"

text \<open>Observers of consecutive runs: the derivative each run computes and the smoothed
  values its scan reads (the first \<open>SAMP_BUFF_LEN\<close> entries of \<open>AccFilt\<close> after the fill).\<close>

fun run_ders :: "algo_state \<Rightarrow> algo_out_t \<Rightarrow> (float list \<times> float list) list \<Rightarrow> float list list" where
  "run_ders st out [] = []"
| "run_ders st out ((b, t) # fs) =
     (let r = step_algo_run b t st out in AccDer (fst r) # run_ders (fst r) (snd r) fs)"

fun scan_windows :: "algo_state \<Rightarrow> algo_out_t \<Rightarrow> (float list \<times> float list) list \<Rightarrow> float list list" where
  "scan_windows st out [] = []"
| "scan_windows st out ((b, t) # fs) =
     take SAMP_BUFF_LEN (AccFilt (fill_frame b t (unat (TC_samples (ll_filter_y st))) st)) #
     (let r = step_algo_run b t st out in scan_windows (fst r) (snd r) fs)"

subsection \<open>The scan invariant\<close>

lemmas run_epilogue_defs = save_statics_def update_output_def


lemma clamp_period:
  assumes "t - p > NO_DETECT_DUR_SEC"
  shows "NO_DETECT_DUR_SEC < t - (if t > p + MAX_TIME_PERIOD_SEC then t - MAX_TIME_PERIOD_SEC else p) \<and>
         t - (if t > p + MAX_TIME_PERIOD_SEC then t - MAX_TIME_PERIOD_SEC else p) \<le> MAX_TIME_PERIOD_SEC"
  using assms by (auto simp: pedo_consts)

lemma scan_inv_mono: "scan_inv i s \<Longrightarrow> i \<le> j \<Longrightarrow> scan_inv j s"
  by (simp add: scan_inv_def)

lemma scan_inv_frame:
  assumes "scan_inv i s"
    and "count_max_det s' = count_max_det s" "count_min_det s' = count_min_det s"
    "avg_time_period s' = avg_time_period s" "amp_est s' = amp_est s"
  shows "scan_inv (Suc i) s'"
  using assms by (simp add: scan_inv_def)

lemma scan_inv_max_commit:
  assumes inv: "scan_inv i s" and i: "i < SAMP_BUFF_LEN"
    and tau: "NO_DETECT_DUR_SEC < \<tau>" "\<tau> \<le> MAX_TIME_PERIOD_SEC"
    and f: "count_max_det s' = count_max_det s + 1" "count_min_det s' = count_min_det s"
    "avg_time_period s' = avg_time_period s + \<tau>" "amp_est s' = amp_est s"
  shows "scan_inv (Suc i) s'"
proof -
  from inv i have "unat (count_max_det s) < 2 ^ 32 - 1" by (simp add: scan_inv_def)
  then have "unat (count_max_det s') = Suc (unat (count_max_det s))"
    using f(1) by (simp add: unat_incr_small)
  with inv tau f show ?thesis
    by (simp add: scan_inv_def distrib_left)
qed

lemma scan_inv_min_commit:
  assumes inv: "scan_inv i s" and i: "i < SAMP_BUFF_LEN"
    and tau: "NO_DETECT_DUR_SEC < \<tau>" "\<tau> \<le> MAX_TIME_PERIOD_SEC" and a: "CLOSE_TO_ZERO < \<alpha>"
    and f: "count_max_det s' = count_max_det s" "count_min_det s' = count_min_det s + 1"
    "avg_time_period s' = avg_time_period s + \<tau>" "amp_est s' = amp_est s + \<alpha>"
  shows "scan_inv (Suc i) s'"
proof -
  from inv i have "unat (count_min_det s) < 2 ^ 32 - 1" by (simp add: scan_inv_def)
  then have "unat (count_min_det s') = Suc (unat (count_min_det s))"
    using f(2) by (simp add: unat_incr_small)
  with inv tau a f show ?thesis
    by (auto simp: scan_inv_def distrib_left)
qed

lemma detect_max_inv:
  assumes inv: "scan_inv i s" and i: "i < SAMP_BUFF_LEN"
  shows "scan_inv (Suc i) (detect_max v t s)"
proof (cases "t - max_ts s > NO_DETECT_DUR_SEC \<and> \<bar>v\<bar> > CLOSE_TO_ZERO")
  case True
  define s1 where "s1 = (if t > max_ts s + MAX_TIME_PERIOD_SEC
                         then s\<lparr>max_ts := t - MAX_TIME_PERIOD_SEC\<rparr> else s)"
  have tau: "NO_DETECT_DUR_SEC < t - max_ts s1 \<and> t - max_ts s1 \<le> MAX_TIME_PERIOD_SEC"
    using clamp_period [of t "max_ts s"] True by (simp add: s1_def)
  have inv1: "scan_inv i s1" using inv by (simp add: s1_def scan_inv_def)
  show ?thesis
  proof (cases "v - prev_min_val s1 > CLOSE_TO_ZERO")
    case commit: True
    with True show ?thesis
      unfolding detect_max_def Let_def s1_def [symmetric]
      by (intro scan_inv_max_commit [OF inv1 i, of "t - max_ts s1"]) (simp_all add: tau)
  next
    case False
    with True show ?thesis
      unfolding detect_max_def Let_def s1_def [symmetric]
      by (intro scan_inv_frame [OF inv1]) simp_all
  qed
next
  case False
  then show ?thesis
    unfolding detect_max_def by (auto intro: scan_inv_frame [OF inv])
qed

lemma detect_min_inv:
  assumes inv: "scan_inv i s" and i: "i < SAMP_BUFF_LEN"
  shows "scan_inv (Suc i) (detect_min v t s)"
proof (cases "t - min_ts s > NO_DETECT_DUR_SEC")
  case True
  define s1 where "s1 = (if t > min_ts s + MAX_TIME_PERIOD_SEC
                         then s\<lparr>min_ts := t - MAX_TIME_PERIOD_SEC\<rparr> else s)"
  have tau: "NO_DETECT_DUR_SEC < t - min_ts s1 \<and> t - min_ts s1 \<le> MAX_TIME_PERIOD_SEC"
    using clamp_period [of t "min_ts s"] True by (simp add: s1_def)
  have inv1: "scan_inv i s1" using inv by (simp add: s1_def scan_inv_def)
  show ?thesis
  proof (cases "prev_max_val s1 - v > CLOSE_TO_ZERO")
    case commit: True
    with True show ?thesis
      unfolding detect_min_def Let_def s1_def [symmetric]
      by (intro scan_inv_min_commit [OF inv1 i, of "t - min_ts s1" "prev_max_val s1 - v"])
        (simp_all add: tau)
  next
    case False
    with True show ?thesis
      unfolding detect_min_def Let_def s1_def [symmetric]
      by (intro scan_inv_frame [OF inv1]) simp_all
  qed
next
  case False
  then show ?thesis
    unfolding detect_min_def by (auto intro: scan_inv_frame [OF inv])
qed

lemma scan_iter_inv:
  assumes inv: "scan_inv i s" and i: "i < SAMP_BUFF_LEN"
  shows "scan_inv (Suc i) (scan_iter der filt ts i s)"
proof -
  define s' where "s' = (if i \<ge> 1 then s\<lparr>prev_acc_der := der ! (i - 1)\<rparr> else s)"
  have inv': "scan_inv i s'" using inv by (simp add: s'_def scan_inv_def)
  have "scan_iter der filt ts i s =
          (if max_ts s' \<le> min_ts s' then
             (if der ! i < - EPSILON \<and> prev_acc_der s' \<ge> 0
              then detect_max (filt ! i) (ts ! i) s' else s')
           else
             (if der ! i > EPSILON \<and> prev_acc_der s' \<le> 0
              then detect_min (filt ! i) (ts ! i) s' else s'))"
    by (simp add: scan_iter_def s'_def Let_def)
  then show ?thesis
    using detect_max_inv [OF inv' i] detect_min_inv [OF inv' i] scan_inv_mono [OF inv']
    by simp
qed

lemma scan_init_inv: "scan_inv 0 (scan_init out p)"
  by (simp add: scan_init_def scan_inv_def)

lemma scan_frame_inv: "scan_inv SAMP_BUFF_LEN (scan_frame st out)"
  unfolding scan_frame_def
  by (rule for_loop_rule [where P = scan_inv]) (simp_all add: scan_init_inv scan_iter_inv del: SAMP_BUFF_LEN_val)
subsection \<open>Estimates after a scan\<close>

text \<open>
  When the scan confirmed a minimum, both estimates are fresh averages (the hold
  counters restart at 0): the period average lies in
  \<open>[NO_DETECT_DUR_SEC, MAX_TIME_PERIOD_SEC]\<close>, so the frequency is at least
  \<open>1 / MAX_TIME_PERIOD_SEC\<close>, and the amplitude exceeds \<open>CLOSE_TO_ZERO\<close>.
\<close>

lemma freq_estimate_steps:
  assumes inv: "scan_inv SAMP_BUFF_LEN s" and pos: "0 < unat (count_min_det s)"
  shows "freq_estimate (count_max_det s) (count_min_det s) (avg_time_period s) pf h =
           (1 / (avg_time_period s / real (unat (count_max_det s) + unat (count_min_det s))), 0) \<and>
         1 / MAX_TIME_PERIOD_SEC \<le>
           1 / (avg_time_period s / real (unat (count_max_det s) + unat (count_min_det s)))"
proof -
  let ?n = "unat (count_max_det s) + unat (count_min_det s)"
  let ?p = "avg_time_period s / real ?n"
  from inv have n52: "?n \<le> SAMP_BUFF_LEN" by (simp add: scan_inv_def)
  from pos have npos: "0 < ?n" by simp
  have un: "unat (count_max_det s + count_min_det s) = ?n"
    using n52 by (intro unat_add_small) simp
  with npos have wpos: "count_max_det s + count_min_det s > 0"
    by (intro word_pos_unat) simp
  from inv have h1: "NO_DETECT_DUR_SEC * real ?n \<le> avg_time_period s"
    and h2: "avg_time_period s \<le> MAX_TIME_PERIOD_SEC * real ?n"
    unfolding scan_inv_def by blast+
  from npos have Npos: "0 < real ?n" by (simp only: of_nat_0_less_iff)
  from avg_within [OF Npos h1 h2] have lo: "NO_DETECT_DUR_SEC \<le> ?p" and hi: "?p \<le> MAX_TIME_PERIOD_SEC"
    by blast+
  moreover have "EPSILON < NO_DETECT_DUR_SEC" by (simp add: pedo_consts)
  ultimately have peps: "?p > EPSILON" by linarith
  have "freq_estimate (count_max_det s) (count_min_det s) (avg_time_period s) pf h = (1 / ?p, 0)"
    using wpos un peps by (simp add: freq_estimate_def Let_def)
  moreover have "1 / MAX_TIME_PERIOD_SEC \<le> 1 / ?p"
  proof (rule divide_left_mono [OF hi])
    have "0 < NO_DETECT_DUR_SEC" by (simp add: pedo_consts)
    with lo have "0 < ?p" by linarith
    then show "0 < MAX_TIME_PERIOD_SEC * ?p" by (intro mult_pos_pos) (simp_all add: pedo_consts)
  qed simp
  ultimately show ?thesis by simp
qed

lemma amp_estimate_steps:
  assumes inv: "scan_inv SAMP_BUFF_LEN s" and pos: "0 < unat (count_min_det s)"
  shows "amp_estimate (count_min_det s) (amp_est s) pa h =
           (amp_est s / real (unat (count_min_det s)), 0) \<and>
         CLOSE_TO_ZERO < amp_est s / real (unat (count_min_det s))"
proof -
  from pos have wpos: "count_min_det s > 0" by (rule word_pos_unat)
  from inv pos have "CLOSE_TO_ZERO * real (unat (count_min_det s)) < amp_est s"
    by (simp add: scan_inv_def)
  with pos have "CLOSE_TO_ZERO < amp_est s / real (unat (count_min_det s))"
    by (simp add: pos_less_divide_eq)
  with wpos show ?thesis by (simp add: amp_estimate_def)
qed

subsection \<open>Steps counted by one run\<close>

lemma fill_frame_tally [simp]: "tally (fill_frame buf_y buf_ts tc st) = tally st"
  unfolding fill_frame_def
  by (rule for_loop_frame) (simp add: fill_iter_def split_def Let_def)

lemma save_tail_tally [simp]: "tally (save_tail buf_y buf_ts tc st) = tally st"
  unfolding save_tail_def
  by (rule for_loop_frame) (simp add: save_tail_iter_def)

lemma step_algo_run_steps:
  "step_count (snd (step_algo_run buf_y buf_ts st out)) =
     step_count out + count_min_det (scan_frame (fill_frame buf_y buf_ts (unat (TC_samples (ll_filter_y st))) st) out) \<and>
   tally_total (tally (fst (step_algo_run buf_y buf_ts st out))) =
     tally_total (tally st) + count_min_det (scan_frame (fill_frame buf_y buf_ts (unat (TC_samples (ll_filter_y st))) st) out)"
proof -
  define st1 where "st1 = fill_frame buf_y buf_ts (unat (TC_samples (ll_filter_y st))) st"
  define s where "s = scan_frame st1 out"
  define amp where "amp = fst (amp_estimate (count_min_det s) (amp_est s) (prev_amp_est st1) (amp_est_hold st1))"
  define freq where "freq = fst (freq_estimate (count_max_det s) (count_min_det s) (avg_time_period s) (prev_freq_est st1) (freq_est_hold st1))"
  have inv: "scan_inv SAMP_BUFF_LEN s" unfolding s_def by (rule scan_frame_inv)
  have moving: "\<not> (amp \<le> SMALL_AMP \<and> freq \<le> SLOW_FREQ)" if "count_min_det s \<noteq> 0"
  proof -
    from that have "0 < unat (count_min_det s)" by (simp add: unat_gt_0)
    from freq_estimate_steps [OF inv this] have "1 / MAX_TIME_PERIOD_SEC \<le> freq"
      by (simp add: freq_def)
    moreover have "SLOW_FREQ < 1 / MAX_TIME_PERIOD_SEC" by (simp add: pedo_consts)
    ultimately show ?thesis by linarith
  qed
  have "tally_total (tally (fst (step_algo_run buf_y buf_ts st out))) =
          (if amp \<le> SMALL_AMP \<and> freq \<le> SLOW_FREQ then tally_total (tally st)
           else tally_total (tally st) + count_min_det s)"
    by (simp add: step_algo_run_def run_epilogue_defs Let_def split_def classify_step_total
        st1_def [symmetric] s_def [symmetric] amp_def freq_def)
  moreover have "step_count (snd (step_algo_run buf_y buf_ts st out)) = step_count out + count_min_det s"
    by (simp add: step_algo_run_def run_epilogue_defs Let_def split_def classify_step_out
        st1_def [symmetric] s_def [symmetric])
  ultimately show ?thesis
    using moving by (cases "count_min_det s = 0") (simp_all add: s_def st1_def)
qed

lemma step_algo_run_counters:
  "\<exists>m. step_count (snd (step_algo_run buf_y buf_ts st out)) =
         step_count out + count_min_det (scan_frame (fill_frame buf_y buf_ts (unat (TC_samples (ll_filter_y st))) st) out) \<and>
       tally (fst (step_algo_run buf_y buf_ts st out)) =
         tally_add m (count_min_det (scan_frame (fill_frame buf_y buf_ts (unat (TC_samples (ll_filter_y st))) st) out)) (tally st)"
  by (auto simp: step_algo_run_def run_epilogue_defs Let_def split_def classify_step_tally classify_step_out)

lemma scan_frame_cmin_bound: "unat (count_min_det (scan_frame st out)) \<le> SAMP_BUFF_LEN"
  using scan_frame_inv [of st out] by (simp add: scan_inv_def del: SAMP_BUFF_LEN_val)

text \<open>
  C23. Each run adds at most \<open>SAMP_BUFF_LEN\<close> steps to \<open>step_count\<close> (line 390), and while
  the sum stays below \<open>2^32\<close> the count does not decrease; past that the 32-bit counter
  wraps, as in C.
\<close>

theorem step_algo_run_count_monotone:
  assumes "unat (step_count out) + SAMP_BUFF_LEN < 2 ^ 32"
  shows "unat (step_count out) \<le> unat (step_count (snd (step_algo_run buf_y buf_ts st out))) \<and>
         unat (step_count (snd (step_algo_run buf_y buf_ts st out))) \<le> unat (step_count out) + SAMP_BUFF_LEN"
proof -
  let ?c = "count_min_det (scan_frame (fill_frame buf_y buf_ts (unat (TC_samples (ll_filter_y st))) st) out)"
  have b: "unat ?c \<le> SAMP_BUFF_LEN" by (rule scan_frame_cmin_bound)
  with assms have "unat (step_count out + ?c) = unat (step_count out) + unat ?c"
    by (intro unat_add_small) linarith
  with b show ?thesis using step_algo_run_steps [of buf_y buf_ts st out]
    by (simp del: SAMP_BUFF_LEN_val)
qed

theorem step_algo_run_count_monotone_witness:
  "unat (step_count (snd (step_algo_run (replicate SAMP_BUFF_LEN 9.81) (replicate SAMP_BUFF_LEN 1) algo_init
      \<lparr>step_count = 100, step_type = WALK, prev_max = 0, prev_min = 0, prev_max_ts = 0, prev_min_ts = 0\<rparr>)))
   \<in> {100..152}"
  using step_algo_run_count_monotone [of "\<lparr>step_count = 100, step_type = WALK, prev_max = 0, prev_min = 0,
      prev_max_ts = 0, prev_min_ts = 0\<rparr>" "replicate SAMP_BUFF_LEN 9.81" "replicate SAMP_BUFF_LEN 1" algo_init]
  by simp
subsection \<open>The extended window and the tail carry\<close>

lemma algo_init_wf: "algo_wf algo_init"
  by (simp add: algo_wf_def algo_init_def ll_filter_init_tc)

lemma algo_rest_wf: "algo_wf (algo_init\<lparr>ll_filter_y := ll_rest c\<rparr>)"
  using algo_init_wf by (simp add: algo_wf_def ll_rest_tc)

lemma fill_inv_step:
  assumes inv: "fill_inv buf_y buf_ts tc st j st'" and j: "j < SAMP_BUFF_LEN"
    and len: "SAMP_BUFF_LEN \<le> length (AccDer st)" "tc + SAMP_BUFF_LEN \<le> length (AccFilt st)"
      "tc + SAMP_BUFF_LEN \<le> length (TimeStamps st)"
      "SAMP_BUFF_LEN \<le> length buf_y" "SAMP_BUFF_LEN \<le> length buf_ts"
  shows "fill_inv buf_y buf_ts tc st (Suc j) (fill_iter buf_y buf_ts tc j st')"
proof -
  from inv have l: "length (AccDer st') = length (AccDer st)" "length (AccFilt st') = length (AccFilt st)"
    "length (TimeStamps st') = length (TimeStamps st)"
    and f: "(ll_filter_y st', take j (AccDer st')) = filter_run (ll_filter_y st) (take j buf_y)"
    and a: "take (tc + j) (AccFilt st') = take tc (AccFilt st) @ take j buf_y"
    and t: "take (tc + j) (TimeStamps st') = take tc (TimeStamps st) @ take j buf_ts"
    and r: "st'\<lparr>ll_filter_y := ll_filter_y st, AccDer := AccDer st, AccFilt := AccFilt st,
         TimeStamps := TimeStamps st\<rparr> = st"
    unfolding fill_inv_def by blast+
  have jy: "j < length buf_y" "j < length buf_ts" using j len by simp_all
  have "take (Suc j) buf_y = take j buf_y @ [buf_y ! j]" by (rule take_Suc_nth [OF jy(1)])
  then have fr: "filter_run (ll_filter_y st) (take (Suc j) buf_y) =
     (fst (apply_filter (ll_filter_y st') (buf_y ! j)), take j (AccDer st') @ [snd (apply_filter (ll_filter_y st') (buf_y ! j))])"
    using f by (simp add: filter_run_snoc split_def Let_def) (metis fst_conv snd_conv)
  have ia: "tc + j < length (AccFilt st')" and it: "tc + j < length (TimeStamps st')"
    and id: "j < length (AccDer st')"
    using l j len by simp_all
  have a': "take (tc + Suc j) ((AccFilt st')[tc + j := buf_y ! j]) =
            take tc (AccFilt st) @ take (Suc j) buf_y"
    using take_Suc_list_update [OF ia] a take_Suc_nth [OF jy(1)] by simp
  have t': "take (tc + Suc j) ((TimeStamps st')[tc + j := buf_ts ! j]) =
            take tc (TimeStamps st) @ take (Suc j) buf_ts"
    using take_Suc_list_update [OF it] t take_Suc_nth [OF jy(2)] by simp
  have d': "take (Suc j) ((AccDer st')[j := snd (apply_filter (ll_filter_y st') (buf_y ! j))]) =
            take j (AccDer st') @ [snd (apply_filter (ll_filter_y st') (buf_y ! j))]"
    using take_Suc_list_update [OF id] .
  show ?thesis
    unfolding fill_inv_def fill_iter_def
    using l r fr a' t' d' take_Suc_nth [OF jy(1)]
    by (auto simp: split_def Let_def)
qed

lemma fill_frame_inv:
  assumes wf: "algo_wf st" and tc: "tc \<le> MAX_TC_SAMPLES"
    and ly: "length buf_y = SAMP_BUFF_LEN" and lt: "length buf_ts = SAMP_BUFF_LEN"
  shows "fill_inv buf_y buf_ts tc st SAMP_BUFF_LEN (fill_frame buf_y buf_ts tc st)"
  unfolding fill_frame_def
proof (rule for_loop_rule [where P = "fill_inv buf_y buf_ts tc st"])
  show "fill_inv buf_y buf_ts tc st 0 st" by (simp add: fill_inv_def)
next
  fix j t assume "0 \<le> j" "j < SAMP_BUFF_LEN" "fill_inv buf_y buf_ts tc st j t"
  then show "fill_inv buf_y buf_ts tc st (Suc j) (fill_iter buf_y buf_ts tc j t)"
    using wf tc ly lt by (intro fill_inv_step) (simp_all add: algo_wf_def)
qed simp

lemma tail_inv_step:
  assumes inv: "tail_inv buf_y buf_ts tc st j st'" and j: "j < tc" and tc: "tc \<le> SAMP_BUFF_LEN"
    and ly: "length buf_y = SAMP_BUFF_LEN" and lt: "length buf_ts = SAMP_BUFF_LEN"
    and la: "tc \<le> length (AccFilt st)" "tc \<le> length (TimeStamps st)"
  shows "tail_inv buf_y buf_ts tc st (Suc j) (save_tail_iter buf_y buf_ts tc j st')"
proof -
  from inv have l: "length (AccFilt st') = length (AccFilt st)" "length (TimeStamps st') = length (TimeStamps st)"
    and a: "take j (AccFilt st') = take j (drop (SAMP_BUFF_LEN - tc) buf_y)"
    and a2: "drop j (AccFilt st') = drop j (AccFilt st)"
    and t: "take j (TimeStamps st') = take j (drop (SAMP_BUFF_LEN - tc) buf_ts)"
    and t2: "drop j (TimeStamps st') = drop j (TimeStamps st)"
    and r: "st'\<lparr>AccFilt := AccFilt st, TimeStamps := TimeStamps st\<rparr> = st"
    unfolding tail_inv_def by blast+
  have ja: "j < length (AccFilt st')" "j < length (TimeStamps st')" using l la j by simp_all
  have dy: "drop (SAMP_BUFF_LEN - tc) buf_y ! j = buf_y ! (SAMP_BUFF_LEN - tc + j)"
    "drop (SAMP_BUFF_LEN - tc) buf_ts ! j = buf_ts ! (SAMP_BUFF_LEN - tc + j)"
    using j tc ly lt by simp_all
  have jd: "j < length (drop (SAMP_BUFF_LEN - tc) buf_y)" "j < length (drop (SAMP_BUFF_LEN - tc) buf_ts)"
    using j tc ly lt by simp_all
  have dd: "drop (Suc j) (AccFilt st') = drop (Suc j) (AccFilt st)"
    "drop (Suc j) (TimeStamps st') = drop (Suc j) (TimeStamps st)"
    using a2 t2 by (simp_all add: drop_Suc tl_drop [symmetric])
  show ?thesis
    unfolding tail_inv_def save_tail_iter_def
    using take_drop_update [OF ja(1)] take_drop_update [OF ja(2)] l r a t dd
      take_Suc_nth [OF jd(1)] take_Suc_nth [OF jd(2)] dy
    by auto
qed

lemma save_tail_inv:
  assumes tc: "tc \<le> MAX_TC_SAMPLES" and wf: "length (AccFilt st) = SAMP_BUFF_LEN + MAX_TC_SAMPLES"
    "length (TimeStamps st) = SAMP_BUFF_LEN + MAX_TC_SAMPLES"
    and ly: "length buf_y = SAMP_BUFF_LEN" and lt: "length buf_ts = SAMP_BUFF_LEN"
  shows "tail_inv buf_y buf_ts tc st tc (save_tail buf_y buf_ts tc st)"
  unfolding save_tail_def
proof (rule for_loop_rule [where P = "tail_inv buf_y buf_ts tc st"])
  show "tail_inv buf_y buf_ts tc st 0 st" by (simp add: tail_inv_def)
next
  fix j t assume "0 \<le> j" "j < tc" "tail_inv buf_y buf_ts tc st j t"
  then show "tail_inv buf_y buf_ts tc st (Suc j) (save_tail_iter buf_y buf_ts tc j t)"
    using tc wf ly lt by (intro tail_inv_step) simp_all
qed simp

lemma save_tail_other [simp]:
  "AccDer (save_tail buf_y buf_ts tc st) = AccDer st"
  "ll_filter_y (save_tail buf_y buf_ts tc st) = ll_filter_y st"
  by (simp_all add: save_tail_def for_loop_frame save_tail_iter_def)

lemma step_algo_run_arrays:
  "AccFilt (fst (step_algo_run buf_y buf_ts st out)) =
     AccFilt (save_tail buf_y buf_ts (unat (TC_samples (ll_filter_y st)))
       (fill_frame buf_y buf_ts (unat (TC_samples (ll_filter_y st))) st))"
  "TimeStamps (fst (step_algo_run buf_y buf_ts st out)) =
     TimeStamps (save_tail buf_y buf_ts (unat (TC_samples (ll_filter_y st)))
       (fill_frame buf_y buf_ts (unat (TC_samples (ll_filter_y st))) st))"
  "AccDer (fst (step_algo_run buf_y buf_ts st out)) =
     AccDer (fill_frame buf_y buf_ts (unat (TC_samples (ll_filter_y st))) st)"
  "ll_filter_y (fst (step_algo_run buf_y buf_ts st out)) =
     ll_filter_y (fill_frame buf_y buf_ts (unat (TC_samples (ll_filter_y st))) st)"
  by (simp_all add: step_algo_run_def run_epilogue_defs Let_def split_def)

text \<open>What one run does to the arrays, from the loop invariants of its fill and tail loops.\<close>

lemma step_algo_run_parts:
  assumes wf: "algo_wf st" and ly: "length buf_y = SAMP_BUFF_LEN" and lt: "length buf_ts = SAMP_BUFF_LEN"
  shows "let tc = unat (TC_samples (ll_filter_y st)); st1 = fill_frame buf_y buf_ts tc st;
             st' = fst (step_algo_run buf_y buf_ts st out)
         in (ll_filter_y st', AccDer st') = filter_run (ll_filter_y st) buf_y \<and>
            take (tc + SAMP_BUFF_LEN) (AccFilt st1) = take tc (AccFilt st) @ buf_y \<and>
            take (tc + SAMP_BUFF_LEN) (TimeStamps st1) = take tc (TimeStamps st) @ buf_ts \<and>
            take tc (AccFilt st') = drop (SAMP_BUFF_LEN - tc) buf_y \<and>
            take tc (TimeStamps st') = drop (SAMP_BUFF_LEN - tc) buf_ts \<and>
            algo_wf st' \<and> TC_samples (ll_filter_y st') = TC_samples (ll_filter_y st)"
proof -
  define tc where "tc = unat (TC_samples (ll_filter_y st))"
  define st1 where "st1 = fill_frame buf_y buf_ts tc st"
  define st2 where "st2 = save_tail buf_y buf_ts tc st1"
  from wf have tc20: "tc \<le> MAX_TC_SAMPLES" by (simp add: algo_wf_def tc_def)
  from fill_frame_inv [OF wf tc20 ly lt] have F: "fill_inv buf_y buf_ts tc st SAMP_BUFF_LEN st1"
    by (simp add: st1_def)
  then have F1: "(ll_filter_y st1, AccDer st1) = filter_run (ll_filter_y st) buf_y"
    and F2: "take (tc + SAMP_BUFF_LEN) (AccFilt st1) = take tc (AccFilt st) @ buf_y"
    and F3: "take (tc + SAMP_BUFF_LEN) (TimeStamps st1) = take tc (TimeStamps st) @ buf_ts"
    and FL: "length (AccDer st1) = length (AccDer st)" "length (AccFilt st1) = length (AccFilt st)"
      "length (TimeStamps st1) = length (TimeStamps st)"
    using wf ly lt unfolding fill_inv_def algo_wf_def by auto
  have L1: "length (AccFilt st1) = SAMP_BUFF_LEN + MAX_TC_SAMPLES"
    "length (TimeStamps st1) = SAMP_BUFF_LEN + MAX_TC_SAMPLES"
    using FL wf by (simp_all add: algo_wf_def)
  from save_tail_inv [OF tc20 L1 ly lt] have T: "tail_inv buf_y buf_ts tc st1 tc st2"
    by (simp add: st2_def)
  have len_drop: "length (drop (SAMP_BUFF_LEN - tc) buf_y) = tc"
    "length (drop (SAMP_BUFF_LEN - tc) buf_ts) = tc"
    using tc20 ly lt by simp_all
  from T have T1: "take tc (AccFilt st2) = drop (SAMP_BUFF_LEN - tc) buf_y"
    and T2: "take tc (TimeStamps st2) = drop (SAMP_BUFF_LEN - tc) buf_ts"
    and TL: "length (AccFilt st2) = length (AccFilt st1)" "length (TimeStamps st2) = length (TimeStamps st1)"
    using len_drop unfolding tail_inv_def by simp_all
  have tc_same: "TC_samples (ll_filter_y st1) = TC_samples (ll_filter_y st)"
    using F1 by (metis filter_run_coeffs(6) fst_conv)
  have wf': "algo_wf (fst (step_algo_run buf_y buf_ts st out))"
    using FL TL L1 wf tc_same
    by (simp add: algo_wf_def step_algo_run_arrays tc_def [symmetric] st1_def [symmetric] st2_def [symmetric])
  show ?thesis
    using F1 F2 F3 T1 T2 wf' tc_same
    by (simp add: Let_def step_algo_run_arrays tc_def [symmetric] st1_def [symmetric] st2_def [symmetric])
qed

lemma step_algo_run_wf:
  assumes "algo_wf st" and "length buf_y = SAMP_BUFF_LEN" and "length buf_ts = SAMP_BUFF_LEN"
  shows "algo_wf (fst (step_algo_run buf_y buf_ts st out))"
  using step_algo_run_parts [OF assms, of out] by (simp add: Let_def)
text \<open>
  C4. The extended window (lines 280--287 and 376--379): one run filters the frame with
  the derivative filter continuing from its state at the end of the previous frame; the
  scan reads, at index \<open>i\<close>, entry \<open>i\<close> of the previous frame's last \<open>TC_samples\<close>
  smoothed values followed by the frame (that is, the frame delayed by \<open>TC_samples\<close>
  samples), with the matching timestamps; and the run leaves the frame's last
  \<open>TC_samples\<close> values and timestamps at the start of the window for the next run. The
  array sizes are kept, so every index the run touches is in range.
\<close>

theorem step_algo_run_window:
  assumes wf: "algo_wf st" and ly: "length buf_y = SAMP_BUFF_LEN" and lt: "length buf_ts = SAMP_BUFF_LEN"
  shows "let tc = unat (TC_samples (ll_filter_y st)); st1 = fill_frame buf_y buf_ts tc st;
             st' = fst (step_algo_run buf_y buf_ts st out)
         in (ll_filter_y st', AccDer st') = filter_run (ll_filter_y st) buf_y \<and>
            take SAMP_BUFF_LEN (AccFilt st1) = take SAMP_BUFF_LEN (take tc (AccFilt st) @ buf_y) \<and>
            take SAMP_BUFF_LEN (TimeStamps st1) = take SAMP_BUFF_LEN (take tc (TimeStamps st) @ buf_ts) \<and>
            take tc (AccFilt st') = drop (SAMP_BUFF_LEN - tc) buf_y \<and>
            take tc (TimeStamps st') = drop (SAMP_BUFF_LEN - tc) buf_ts \<and>
            algo_wf st'"
proof -
  let ?tc = "unat (TC_samples (ll_filter_y st))"
  from wf have tc20: "?tc \<le> MAX_TC_SAMPLES" by (simp add: algo_wf_def)
  let ?st1 = "fill_frame buf_y buf_ts ?tc st"
  note P = step_algo_run_parts [OF wf ly lt, of out, unfolded Let_def]
  have cut: "take SAMP_BUFF_LEN xs = take SAMP_BUFF_LEN ys" if "take (?tc + SAMP_BUFF_LEN) xs = ys" for xs ys :: "float list"
    using that by (metis le_add2 min.absorb1 take_take)
  have "take SAMP_BUFF_LEN (AccFilt ?st1) = take SAMP_BUFF_LEN (take ?tc (AccFilt st) @ buf_y)"
    by (rule cut) (use P in blast)
  moreover have "take SAMP_BUFF_LEN (TimeStamps ?st1) = take SAMP_BUFF_LEN (take ?tc (TimeStamps st) @ buf_ts)"
    by (rule cut) (use P in blast)
  ultimately show ?thesis using P by (simp only: Let_def)
qed
theorem step_algo_run_window_witness:
  "algo_wf algo_init \<and>
   take 7 (AccFilt (fst (step_algo_run (replicate SAMP_BUFF_LEN 9.81) (replicate SAMP_BUFF_LEN 1)
                          algo_init
      \<lparr>step_count = 0, step_type = STATIC, prev_max = 0, prev_min = 0, prev_max_ts = 0, prev_min_ts = 0\<rparr>)))
     = replicate 7 9.81"
proof -
  have tc: "unat (TC_samples (ll_filter_y algo_init)) = 7"
    by (simp add: algo_init_def ll_filter_init_tc)
  show ?thesis
    using step_algo_run_window [OF algo_init_wf, of "replicate SAMP_BUFF_LEN 9.81"
        "replicate SAMP_BUFF_LEN 1"
        "\<lparr>step_count = 0, step_type = STATIC, prev_max = 0, prev_min = 0, prev_max_ts = 0, prev_min_ts = 0\<rparr>"]
    by (simp add: Let_def tc algo_init_wf del: SAMP_BUFF_LEN_val) (simp add: SAMP_BUFF_LEN_val)
qed


subsection \<open>Frames at rest and the hold counters\<close>

lemma scan_iter_deadband:
  assumes "\<bar>der ! i\<bar> \<le> EPSILON"
  shows "scan_iter der filt ts i s = (if i \<ge> 1 then s\<lparr>prev_acc_der := der ! (i - 1)\<rparr> else s)"
  using assms by (auto simp: scan_iter_def Let_def)

lemma scan_deadband_frame:
  assumes "\<forall>i. lo \<le> i \<and> i < hi \<longrightarrow> \<bar>der ! i\<bar> \<le> EPSILON"
  shows "(count_max_det (for_loop lo hi (scan_iter der filt ts) s), count_min_det (for_loop lo hi (scan_iter der filt ts) s),
          max_ts (for_loop lo hi (scan_iter der filt ts) s), min_ts (for_loop lo hi (scan_iter der filt ts) s)) =
         (count_max_det s, count_min_det s, max_ts s, min_ts s)"
  by (rule for_loop_frame) (simp add: assms scan_iter_deadband)

lemma scan_frame_deadband:
  assumes "\<forall>i < SAMP_BUFF_LEN. \<bar>AccDer st ! i\<bar> \<le> EPSILON"
  shows "\<exists>p. scan_frame st out = scan_init out p"
  unfolding scan_frame_def
proof (rule for_loop_rule [where P = "\<lambda>j s. \<exists>p. s = scan_init out p"])
  fix j s assume j: "j < SAMP_BUFF_LEN" and "\<exists>p. s = scan_init out p"
  then obtain p where "s = scan_init out p" by blast
  with j assms show "\<exists>p. scan_iter (AccDer st) (AccFilt st) (TimeStamps st) j s = scan_init out p"
    by (auto simp: scan_iter_deadband scan_init_def)
qed auto

lemma fill_frame_rest:
  assumes wf: "algo_wf st" and ll: "ll_filter_y st = ll_rest c" and lt: "length buf_ts = SAMP_BUFF_LEN"
  shows "ll_filter_y (fill_frame (replicate SAMP_BUFF_LEN c) buf_ts (unat (TC_samples (ll_filter_y st))) st) = ll_rest c \<and>
         AccDer (fill_frame (replicate SAMP_BUFF_LEN c) buf_ts (unat (TC_samples (ll_filter_y st))) st) =
           replicate SAMP_BUFF_LEN 0"
proof -
  let ?tc = "unat (TC_samples (ll_filter_y st))"
  let ?st1 = "fill_frame (replicate SAMP_BUFF_LEN c) buf_ts ?tc st"
  from wf have tc: "?tc \<le> MAX_TC_SAMPLES" by (simp add: algo_wf_def)
  from fill_frame_inv [OF wf tc _ lt, of "replicate SAMP_BUFF_LEN c"]
  have "(ll_filter_y ?st1, take SAMP_BUFF_LEN (AccDer ?st1)) = (ll_rest c, replicate SAMP_BUFF_LEN 0)"
    and "length (AccDer ?st1) = SAMP_BUFF_LEN"
    using wf ll ll_rest_filter_run [of c SAMP_BUFF_LEN]
    by (simp_all add: fill_inv_def algo_wf_def del: SAMP_BUFF_LEN_val)
  then show ?thesis by simp
qed

lemma quiet_scan_frame_rest:
  assumes wf: "algo_wf st" and ll: "ll_filter_y st = ll_rest c" and lt: "length buf_ts = SAMP_BUFF_LEN"
  shows "\<exists>p. scan_frame (fill_frame (replicate SAMP_BUFF_LEN c) buf_ts (unat (TC_samples (ll_filter_y st))) st) out =
             scan_init out p"
  using fill_frame_rest [OF assms] by (intro scan_frame_deadband) (simp add: pedo_consts)

text \<open>
  C24. Idempotence on frames at rest: when the derivative filter is at rest on a constant
  level \<open>c\<close> and the frame holds \<open>c\<close> throughout, the run confirms no extremum, counts no
  step, leaves the filter at rest and the derivative zero, and reports the previous extrema
  unchanged.
\<close>

theorem step_algo_run_constant_frame:
  assumes wf: "algo_wf st" and ll: "ll_filter_y st = ll_rest c" and lt: "length buf_ts = SAMP_BUFF_LEN"
  shows "let r = step_algo_run (replicate SAMP_BUFF_LEN c) buf_ts st out
         in step_count (snd r) = step_count out \<and> tally (fst r) = tally st \<and>
            ll_filter_y (fst r) = ll_rest c \<and> AccDer (fst r) = replicate SAMP_BUFF_LEN 0 \<and>
            prev_max (snd r) = prev_max out \<and> prev_min (snd r) = prev_min out \<and>
            prev_max_ts (snd r) = prev_max_ts out \<and> prev_min_ts (snd r) = prev_min_ts out"
proof -
  define st1 where "st1 = fill_frame (replicate SAMP_BUFF_LEN c) buf_ts (unat (TC_samples (ll_filter_y st))) st"
  obtain p where S: "scan_frame st1 out = scan_init out p"
    using quiet_scan_frame_rest [OF assms] unfolding st1_def by blast
  have F: "ll_filter_y st1 = ll_rest c" "AccDer st1 = replicate SAMP_BUFF_LEN 0"
    using fill_frame_rest [OF assms] by (simp_all add: st1_def)
  show ?thesis
    unfolding step_algo_run_def run_epilogue_defs Let_def split_def st1_def [symmetric] S
    using F by (simp add: scan_init_def classify_step_zero classify_step_out st1_def)
qed

theorem step_algo_run_constant_frame_witness:
  "step_count (snd (step_algo_run (replicate SAMP_BUFF_LEN 9.81) (replicate SAMP_BUFF_LEN 1)
      (algo_init\<lparr>ll_filter_y := ll_rest 9.81\<rparr>)
      \<lparr>step_count = 4, step_type = WALK, prev_max = 0, prev_min = 0, prev_max_ts = 0, prev_min_ts = 0\<rparr>)) = 4"
proof -
  show ?thesis
    using step_algo_run_constant_frame [OF algo_rest_wf _ length_replicate]
    by (simp add: Let_def del: SAMP_BUFF_LEN_val)
qed

lemma fill_frame_statics [simp]:
  "prev_amp_est (fill_frame b t tc st) = prev_amp_est st" "amp_est_hold (fill_frame b t tc st) = amp_est_hold st"
  "prev_freq_est (fill_frame b t tc st) = prev_freq_est st" "freq_est_hold (fill_frame b t tc st) = freq_est_hold st"
  by (simp_all add: fill_frame_def for_loop_frame fill_iter_def split_def Let_def)

lemma quiet_run_effect:
  assumes q: "quiet_run b t st out"
  shows "(prev_amp_est (fst (step_algo_run b t st out)), amp_est_hold (fst (step_algo_run b t st out))) =
           hold_age (prev_amp_est st) (amp_est_hold st) \<and>
         (prev_freq_est (fst (step_algo_run b t st out)), freq_est_hold (fst (step_algo_run b t st out))) =
           hold_age (prev_freq_est st) (freq_est_hold st) \<and>
         step_type (snd (step_algo_run b t st out)) =
           motion_class (prev_amp_est (fst (step_algo_run b t st out))) (prev_freq_est (fst (step_algo_run b t st out))) \<and>
         step_count (snd (step_algo_run b t st out)) = step_count out \<and>
         tally (fst (step_algo_run b t st out)) = tally st"
proof -
  define st1 where "st1 = fill_frame b t (unat (TC_samples (ll_filter_y st))) st"
  define s where "s = scan_frame st1 out"
  from q have c: "count_max_det s = 0" "count_min_det s = 0"
    by (simp_all add: quiet_run_def Let_def s_def st1_def)
  have inv: "scan_inv SAMP_BUFF_LEN s" unfolding s_def by (rule scan_frame_inv)
  with c have p0: "avg_time_period s = 0" by (simp add: scan_inv_def)
  show ?thesis
    unfolding step_algo_run_def run_epilogue_defs Let_def split_def st1_def [symmetric] s_def [symmetric]
    using c p0
    by (simp add: amp_estimate_def freq_estimate_def hold_age_def classify_step_zero
        classify_step_out st1_def pedo_consts)
qed

lemma rest_run:
  assumes wf: "algo_wf st" and ll: "ll_filter_y st = ll_rest c" and lt: "length buf_ts = SAMP_BUFF_LEN"
  shows "quiet_run (replicate SAMP_BUFF_LEN c) buf_ts st out \<and>
         algo_wf (fst (step_algo_run (replicate SAMP_BUFF_LEN c) buf_ts st out)) \<and>
         ll_filter_y (fst (step_algo_run (replicate SAMP_BUFF_LEN c) buf_ts st out)) = ll_rest c"
proof -
  obtain p where S: "scan_frame (fill_frame (replicate SAMP_BUFF_LEN c) buf_ts (unat (TC_samples (ll_filter_y st))) st) out =
      scan_init out p"
    using quiet_scan_frame_rest [OF assms] by blast
  then have "quiet_run (replicate SAMP_BUFF_LEN c) buf_ts st out"
    by (simp add: quiet_run_def scan_init_def del: SAMP_BUFF_LEN_val)
  moreover have "algo_wf (fst (step_algo_run (replicate SAMP_BUFF_LEN c) buf_ts st out))"
    using step_algo_run_wf [OF wf _ lt] by simp
  moreover have "ll_filter_y (fst (step_algo_run (replicate SAMP_BUFF_LEN c) buf_ts st out)) = ll_rest c"
    using fill_frame_rest [OF assms] by (simp add: step_algo_run_arrays del: SAMP_BUFF_LEN_val)
  ultimately show ?thesis by blast
qed

lemma hold_age_word:
  fixes h :: uint
  assumes "unat h \<le> 2"
  shows "(word_of_nat BUFF_FACTOR < h + 1) = (unat h = 2) \<and> (unat h < 2 \<longrightarrow> unat (h + 1) = Suc (unat h))"
proof -
  have u: "unat (h + 1) = Suc (unat h)" using assms by (intro unat_incr_small) simp
  have "(word_of_nat BUFF_FACTOR < h + 1) = (2 < unat (h + 1))"
    by (simp add: word_less_nat_alt pedo_consts)
  with u assms show ?thesis by auto
qed

lemma hold_age_funpow:
  assumes "unat h \<le> 2"
  shows "unat (snd ((case_prod hold_age ^^ n) (v, h))) \<le> 2 \<and>
         (fst ((case_prod hold_age ^^ n) (v, h)) = 0 \<or> unat (snd ((case_prod hold_age ^^ n) (v, h))) = unat h + n)"
proof (induction n)
  case 0
  with assms show ?case by simp
next
  case (Suc n)
  obtain v' h' where vh: "(case_prod hold_age ^^ n) (v, h) = (v', h')" by fastforce
  with Suc have h': "unat h' \<le> 2" and d: "v' = 0 \<or> unat h' = unat h + n" by simp_all
  have E: "(case_prod hold_age ^^ Suc n) (v, h) = hold_age v' h'" by (simp add: vh)
  show ?case unfolding E
    using hold_age_word [OF h'] h' d by (auto simp: hold_age_def)
qed

lemma hold_age_expired:
  assumes "unat h \<le> 2" and "3 \<le> n"
  shows "fst ((case_prod hold_age ^^ n) (v, h)) = 0"
  using hold_age_funpow [OF assms(1), of n v] assms by auto

lemma run_frames_quiet:
  assumes "all_quiet st out fs"
  shows "(prev_amp_est (fst (run_frames st out fs)), amp_est_hold (fst (run_frames st out fs))) =
           (case_prod hold_age ^^ length fs) (prev_amp_est st, amp_est_hold st) \<and>
         (prev_freq_est (fst (run_frames st out fs)), freq_est_hold (fst (run_frames st out fs))) =
           (case_prod hold_age ^^ length fs) (prev_freq_est st, freq_est_hold st) \<and>
         (fs \<noteq> [] \<longrightarrow> step_type (snd (run_frames st out fs)) =
           motion_class (prev_amp_est (fst (run_frames st out fs))) (prev_freq_est (fst (run_frames st out fs)))) \<and>
         step_count (snd (run_frames st out fs)) = step_count out \<and>
         tally (fst (run_frames st out fs)) = tally st"
  using assms
proof (induction st out fs rule: run_frames.induct)
  case (1 st out)
  then show ?case by simp
next
  case (2 st out b t fs)
  let ?r = "step_algo_run b t st out"
  from "2.prems" have q: "quiet_run b t st out" and rest: "all_quiet (fst ?r) (snd ?r) fs"
    by (simp_all add: Let_def)
  note E = quiet_run_effect [OF q]
  have IH: "?case" if "fs \<noteq> []"
    using "2.IH" [OF refl rest] E that by (simp add: Let_def funpow_Suc_right del: funpow.simps)
  moreover have "?case" if "fs = []"
    using E that by (simp add: Let_def)
  ultimately show ?case by blast
qed

lemma all_quiet_rest:
  assumes "algo_wf st" and "ll_filter_y st = ll_rest c" and "length bt = SAMP_BUFF_LEN"
  shows "all_quiet st out (replicate n (replicate SAMP_BUFF_LEN c, bt))"
  using assms(1,2)
proof (induction n arbitrary: st out)
  case 0
  then show ?case by simp
next
  case (Suc n)
  from rest_run [OF Suc.prems assms(3), of out] Suc.IH show ?case
    by (simp add: Let_def del: SAMP_BUFF_LEN_val)
qed

text \<open>
  C7. Stationary after quiet runs: from any state whose hold counters are within their bound,
  a sequence of at least three runs in which the scan confirms no extremum ends with the
  label \<open>STATIC\<close> and both estimates reset to zero, and it counts no step.
\<close>

theorem quiet_runs_stationary:
  assumes "unat (amp_est_hold st) \<le> 2" and "unat (freq_est_hold st) \<le> 2"
    and "all_quiet st out fs" and "3 \<le> length fs"
  shows "step_type (snd (run_frames st out fs)) = STATIC \<and>
         prev_amp_est (fst (run_frames st out fs)) = 0 \<and> prev_freq_est (fst (run_frames st out fs)) = 0 \<and>
         step_count (snd (run_frames st out fs)) = step_count out \<and> tally (fst (run_frames st out fs)) = tally st"
proof -
  note R = run_frames_quiet [OF assms(3)]
  have A: "prev_amp_est (fst (run_frames st out fs)) = 0"
    using R hold_age_expired [OF assms(1) assms(4)] by (metis fst_conv)
  have F: "prev_freq_est (fst (run_frames st out fs)) = 0"
    using R hold_age_expired [OF assms(2) assms(4)] by (metis fst_conv)
  from assms(4) have "fs \<noteq> []" by auto
  with R A F show ?thesis by (simp add: motion_class_def pedo_consts)
qed

theorem quiet_runs_stationary_witness:
  "step_type (snd (run_frames (algo_init\<lparr>ll_filter_y := ll_rest 9.81\<rparr>)
      \<lparr>step_count = 0, step_type = WALK, prev_max = 0, prev_min = 0, prev_max_ts = 0, prev_min_ts = 0\<rparr>
      (replicate 3 (replicate SAMP_BUFF_LEN 9.81, replicate SAMP_BUFF_LEN 1)))) = STATIC"
proof -
  show ?thesis
    using quiet_runs_stationary [OF _ _ all_quiet_rest [OF algo_rest_wf _ length_replicate]]
    by (simp add: algo_init_def del: SAMP_BUFF_LEN_val)
qed
text \<open>
  C18. The label is held for two quiet runs: after a run that confirmed a minimum and a
  period (both hold counters 0), two further runs that confirm nothing keep both estimates
  and the label they give; only the third quiet run clears them (the previous theorem).
\<close>

theorem quiet_runs_hold:
  assumes "amp_est_hold st = 0" and "freq_est_hold st = 0"
    and "all_quiet st out fs" and "length fs = 2"
  shows "prev_amp_est (fst (run_frames st out fs)) = prev_amp_est st \<and>
         prev_freq_est (fst (run_frames st out fs)) = prev_freq_est st \<and>
         step_type (snd (run_frames st out fs)) = motion_class (prev_amp_est st) (prev_freq_est st)"
proof -
  have two: "(case_prod hold_age ^^ 2) (v, 0) = (v, 2)" for v
    by (simp add: numeral_2_eq_2 hold_age_def pedo_consts)
  show ?thesis
    using run_frames_quiet [OF assms(3)] assms(1,2,4) two by auto
qed

theorem quiet_runs_hold_witness:
  "step_type (snd (run_frames (algo_init\<lparr>ll_filter_y := ll_rest 9.81, prev_amp_est := 10, prev_freq_est := 1\<rparr>)
      \<lparr>step_count = 0, step_type = WALK, prev_max = 0, prev_min = 0, prev_max_ts = 0, prev_min_ts = 0\<rparr>
      (replicate 2 (replicate SAMP_BUFF_LEN 9.81, replicate SAMP_BUFF_LEN 1)))) = WALK"
proof -
  have wf: "algo_wf (algo_init\<lparr>ll_filter_y := ll_rest 9.81, prev_amp_est := 10, prev_freq_est := 1\<rparr>)"
    using algo_rest_wf [of "9.81"] by (simp add: algo_wf_def)
  show ?thesis
    using quiet_runs_hold [OF _ _ all_quiet_rest [OF wf _ length_replicate]]
    by (simp add: algo_init_def motion_class_def pedo_consts del: SAMP_BUFF_LEN_val)
qed
subsection \<open>Order of the confirmed extrema\<close>

text \<open>
  The scan does not strictly alternate maxima and minima: when a falling zero crossing
  passes the dead time and the magnitude test but fails the test against the previous
  minimum (line 308), the clamp of lines 305--306 has already moved \<open>prev_max_ts\<close>, which
  puts the scan back into min-search; the next rising crossing then confirms a second
  minimum, and a second step, with no maximum confirmed in between. Here three samples
  (derivative 1, -1, 1; smoothed values -5, -4, -6 at 2 s, 4 s, 4.5 s; previous maximum
  5 at 1 s, previous minimum 0 at 0 s) give two steps and no maximum.
\<close>

lemma scan_frame_two_minima:
  "let s = scan_frame
             (algo_init\<lparr>AccDer := [1, -1, 1] @ replicate 49 0,
                         AccFilt := [-5, -4, -6] @ replicate 69 0,
                         TimeStamps := [2, 4, 4.5] @ replicate 69 0\<rparr>)
             \<lparr>step_count = 0, step_type = WALK, prev_max = 5, prev_min = 0, prev_max_ts = 1, prev_min_ts = 0\<rparr>
   in count_min_det s = 2 \<and> count_max_det s = 0 \<and> max_ts s = 2.5 \<and> min_ts s = 4.5"
proof -
  let ?der = "[1, -1, 1] @ replicate 49 (0::real)"
  let ?filt = "[-5, -4, -6] @ replicate 69 (0::real)"
  let ?ts = "[2, 4, 4.5] @ replicate 69 (0::real)"
  let ?s0 = "scan_init \<lparr>step_count = 0, step_type = WALK, prev_max = 5, prev_min = 0, prev_max_ts = 1, prev_min_ts = 0\<rparr> 0"
  have q: "\<forall>i. 3 \<le> i \<and> i < SAMP_BUFF_LEN \<longrightarrow> \<bar>?der ! i\<bar> \<le> EPSILON"
    by (auto simp: nth_append pedo_consts)
  have three: "for_loop 0 3 (scan_iter ?der ?filt ?ts) ?s0 =
      scan_iter ?der ?filt ?ts 2 (scan_iter ?der ?filt ?ts 1 (scan_iter ?der ?filt ?ts 0 ?s0))"
    by (simp add: for_loop_step numeral_3_eq_3 numeral_2_eq_2)
  have c: "count_min_det (for_loop 0 3 (scan_iter ?der ?filt ?ts) ?s0) = 2 \<and>
      count_max_det (for_loop 0 3 (scan_iter ?der ?filt ?ts) ?s0) = 0 \<and>
      max_ts (for_loop 0 3 (scan_iter ?der ?filt ?ts) ?s0) = 2.5 \<and>
      min_ts (for_loop 0 3 (scan_iter ?der ?filt ?ts) ?s0) = 4.5"
    unfolding three
    by (simp add: scan_init_def scan_iter_def detect_max_def detect_min_def pedo_consts)
  have f: "scan_frame (algo_init\<lparr>AccDer := ?der, AccFilt := ?filt, TimeStamps := ?ts\<rparr>)
      \<lparr>step_count = 0, step_type = WALK, prev_max = 5, prev_min = 0, prev_max_ts = 1, prev_min_ts = 0\<rparr> =
      for_loop 3 SAMP_BUFF_LEN (scan_iter ?der ?filt ?ts) (for_loop 0 3 (scan_iter ?der ?filt ?ts) ?s0)"
    using for_loop_split [of 0 3 SAMP_BUFF_LEN] by (simp add: scan_frame_def algo_init_def)
  show ?thesis
    unfolding f Let_def
    using scan_deadband_frame [OF q, of ?filt ?ts "for_loop 0 3 (scan_iter ?der ?filt ?ts) ?s0"] c
    by (simp del: SAMP_BUFF_LEN_val)
qed
subsection \<open>Batched frames and the sliding window\<close>

text \<open>
  C19. Batched processing with the tail carry is equivalent to the sliding window the
  specification names as its alternative (section 9): over any sequence of runs on full
  frames, the derivative arrays of the runs, concatenated, are the lead-lag filter applied
  once to the whole smoothed signal, and the windows the scans read, concatenated, are the
  whole signal delayed by \<open>TC_samples\<close> samples (preceded by the carried tail).
\<close>

theorem batched_equals_sliding:
  assumes "algo_wf st" and "\<forall>f \<in> set fs. length (fst f) = SAMP_BUFF_LEN \<and> length (snd f) = SAMP_BUFF_LEN"
  shows "concat (run_ders st out fs) = snd (filter_run (ll_filter_y st) (concat (map fst fs))) \<and>
         concat (scan_windows st out fs) =
           take (SAMP_BUFF_LEN * length fs)
             (take (unat (TC_samples (ll_filter_y st))) (AccFilt st) @ concat (map fst fs))"
  using assms
proof (induction fs arbitrary: st out)
  case Nil
  then show ?case by simp
next
  case (Cons f fs)
  obtain b t where f: "f = (b, t)" by (cases f)
  let ?tc = "unat (TC_samples (ll_filter_y st))"
  let ?r = "step_algo_run b t st out"
  from Cons.prems f have lb: "length b = SAMP_BUFF_LEN" and lt: "length t = SAMP_BUFF_LEN" by simp_all
  note P = step_algo_run_parts [OF Cons.prems(1) lb lt, of out, unfolded Let_def]
  from P have wf': "algo_wf (fst ?r)" and tc': "TC_samples (ll_filter_y (fst ?r)) = TC_samples (ll_filter_y st)"
    and D: "(ll_filter_y (fst ?r), AccDer (fst ?r)) = filter_run (ll_filter_y st) b"
    and W: "take (?tc + SAMP_BUFF_LEN) (AccFilt (fill_frame b t ?tc st)) = take ?tc (AccFilt st) @ b"
    and T: "take ?tc (AccFilt (fst ?r)) = drop (SAMP_BUFF_LEN - ?tc) b" by blast+
  note IH = Cons.IH [OF wf', of "snd ?r"] Cons.prems(2)
  from Cons.prems(1) have tc20: "?tc \<le> MAX_TC_SAMPLES" and la: "length (AccFilt st) = SAMP_BUFF_LEN + MAX_TC_SAMPLES"
    by (simp_all add: algo_wf_def)
  have lX: "length (take ?tc (AccFilt st)) = ?tc" using tc20 la by simp
  have w0: "take SAMP_BUFF_LEN (AccFilt (fill_frame b t ?tc st)) = take SAMP_BUFF_LEN (take ?tc (AccFilt st) @ b)"
    using W by (metis le_add2 min.absorb1 take_take)
  have ders: "concat (run_ders st out (f # fs)) = snd (filter_run (ll_filter_y st) (concat (map fst (f # fs))))"
    using IH D by (simp add: f Let_def filter_run_append split_def prod_eq_iff)
  have wins: "concat (scan_windows st out (f # fs)) =
      take (SAMP_BUFF_LEN * length (f # fs)) (take ?tc (AccFilt st) @ concat (map fst (f # fs)))"
    using IH tc' T w0 take_window_shift [OF lX lb, of "length fs" "concat (map fst fs)"] tc20
    by (simp add: f Let_def)
  from ders wins show ?case ..
qed

theorem batched_equals_sliding_witness:
  "concat (scan_windows algo_init
      \<lparr>step_count = 0, step_type = STATIC, prev_max = 0, prev_min = 0, prev_max_ts = 0, prev_min_ts = 0\<rparr>
      [(replicate SAMP_BUFF_LEN 9.81, replicate SAMP_BUFF_LEN 1)]) = replicate 7 0 @ replicate 45 9.81"
proof -
  have tc: "unat (TC_samples (ll_filter_y algo_init)) = 7"
    by (simp add: algo_init_def ll_filter_init_tc)
  show ?thesis
    using batched_equals_sliding [OF algo_init_wf, of "[(replicate SAMP_BUFF_LEN 9.81, replicate SAMP_BUFF_LEN 1)]"
        "\<lparr>step_count = 0, step_type = STATIC, prev_max = 0, prev_min = 0, prev_max_ts = 0, prev_min_ts = 0\<rparr>"]
    by (simp add: tc del: SAMP_BUFF_LEN_val) (simp add: algo_init_def)
qed
subsection \<open>The gates of one scan iteration\<close>

text \<open>
  What one iteration may change: a maximum moves \<open>prev_max_val\<close> to the sample and never
  counts a step; a minimum below the gate is ignored; the two timestamps only move forward,
  and a confirmed extremum is more than \<open>NO_DETECT_DUR_SEC\<close> after the previous one of its kind.
\<close>

lemma detect_max_band:
  "prev_max_val (detect_max v t s) \<in> {prev_max_val s, v} \<and> count_min_det (detect_max v t s) = count_min_det s"
  by (simp add: detect_max_def Let_def)

lemma detect_min_gate:
  assumes "\<not> prev_max_val s - v > CLOSE_TO_ZERO"
  shows "prev_max_val (detect_min v t s) = prev_max_val s \<and> count_min_det (detect_min v t s) = count_min_det s"
  using assms by (simp add: detect_min_def Let_def)

lemma scan_iter_ts_mono:
  "max_ts s \<le> max_ts (scan_iter der filt ts i s) \<and> min_ts s \<le> min_ts (scan_iter der filt ts i s)"
  by (auto simp: scan_iter_def detect_max_def detect_min_def Let_def pedo_consts)

lemma scan_iter_max_commit:
  assumes "count_max_det (scan_iter der filt ts i s) \<noteq> count_max_det s"
  shows "max_ts (scan_iter der filt ts i s) = ts ! i \<and> max_ts s + NO_DETECT_DUR_SEC < ts ! i"
  using assms by (auto simp: scan_iter_def detect_max_def detect_min_def Let_def split: if_splits)

lemma scan_iter_min_commit:
  assumes "count_min_det (scan_iter der filt ts i s) \<noteq> count_min_det s"
  shows "min_ts (scan_iter der filt ts i s) = ts ! i \<and> min_ts s + NO_DETECT_DUR_SEC < ts ! i"
  using assms by (auto simp: scan_iter_def detect_max_def detect_min_def Let_def split: if_splits)

subsection \<open>The amplitude gate over a whole scan\<close>

text \<open>A band of width \<open>CLOSE_TO_ZERO\<close>: no value in it lies more than the gate below another.\<close>

lemma band_gate:
  assumes "\<forall>x\<in>B. lo \<le> x \<and> x \<le> lo + CLOSE_TO_ZERO" "a \<in> B" "b \<in> B"
  shows "\<not> a - b > CLOSE_TO_ZERO"
proof -
  from assms have "lo \<le> b" "a \<le> lo + CLOSE_TO_ZERO" by auto
  then show ?thesis by linarith
qed

lemma scan_frame_band:
  assumes len: "SAMP_BUFF_LEN \<le> length (AccFilt st)"
    and band: "\<forall>x\<in>insert (prev_max out) (set (take SAMP_BUFF_LEN (AccFilt st))). lo \<le> x \<and> x \<le> lo + CLOSE_TO_ZERO"
  shows "count_min_det (scan_frame st out) = 0"
proof -
  let ?B = "insert (prev_max out) (set (take SAMP_BUFF_LEN (AccFilt st)))"
  let ?P = "\<lambda>i s. prev_max_val s \<in> ?B \<and> count_min_det s = 0"
  have "?P SAMP_BUFF_LEN (scan_frame st out)"
    unfolding scan_frame_def
  proof (rule for_loop_rule [where P = ?P])
    show "?P 0 (scan_init out (prevAccDer st))" by (simp add: scan_init_def)
  next
    fix j and s :: scan_st
    assume j: "j < SAMP_BUFF_LEN" and P: "?P j s"
    have v: "AccFilt st ! j \<in> ?B"
      using j len by (simp add: in_set_conv_nth) (metis length_take min.absorb2 nth_take)
    define s' where "s' = (if j \<ge> 1 then s\<lparr>prev_acc_der := AccDer st ! (j - 1)\<rparr> else s)"
    have P': "?P j s'" using P by (simp add: s'_def)
    have "\<not> prev_max_val s' - AccFilt st ! j > CLOSE_TO_ZERO"
      using band_gate [OF band] P' v by blast
    then have "?P (Suc j) (detect_min (AccFilt st ! j) (TimeStamps st ! j) s')"
      using detect_min_gate P' by simp
    moreover have "?P (Suc j) (detect_max (AccFilt st ! j) (TimeStamps st ! j) s')"
      using detect_max_band [of "AccFilt st ! j" "TimeStamps st ! j" s'] P' v by auto
    moreover have "scan_iter (AccDer st) (AccFilt st) (TimeStamps st) j s \<in>
        {detect_min (AccFilt st ! j) (TimeStamps st ! j) s', detect_max (AccFilt st ! j) (TimeStamps st ! j) s', s'}"
      by (simp add: scan_iter_def s'_def Let_def)
    ultimately show "?P (Suc j) (scan_iter (AccDer st) (AccFilt st) (TimeStamps st) j s)"
      using P' by (elim insertE) auto
  qed simp
  then show ?thesis by simp
qed

subsection \<open>The saved estimates\<close>

lemma step_algo_run_estimates:
  "prev_amp_est (fst (step_algo_run b t st out)) =
     fst (amp_estimate (count_min_det (scan_frame (fill_frame b t (unat (TC_samples (ll_filter_y st))) st) out))
           (amp_est (scan_frame (fill_frame b t (unat (TC_samples (ll_filter_y st))) st) out))
           (prev_amp_est st) (amp_est_hold st)) \<and>
   prev_freq_est (fst (step_algo_run b t st out)) =
     fst (freq_estimate (count_max_det (scan_frame (fill_frame b t (unat (TC_samples (ll_filter_y st))) st) out))
           (count_min_det (scan_frame (fill_frame b t (unat (TC_samples (ll_filter_y st))) st) out))
           (avg_time_period (scan_frame (fill_frame b t (unat (TC_samples (ll_filter_y st))) st) out))
           (prev_freq_est st) (freq_est_hold st))"
  by (simp add: step_algo_run_def run_epilogue_defs Let_def split_def)

lemma amp_estimate_ok:
  assumes inv: "scan_inv SAMP_BUFF_LEN s" and p: "pa = 0 \<or> CLOSE_TO_ZERO < pa"
  shows "fst (amp_estimate (count_min_det s) (amp_est s) pa h) = 0 \<or>
         CLOSE_TO_ZERO < fst (amp_estimate (count_min_det s) (amp_est s) pa h)"
proof (cases "0 < unat (count_min_det s)")
  case True
  from amp_estimate_steps [OF inv True] show ?thesis by simp
next
  case False
  then have "count_min_det s = 0" by (simp add: unat_gt_0)
  with p show ?thesis by (auto simp: amp_estimate_def Let_def)
qed

lemma freq_estimate_ok:
  assumes inv: "scan_inv SAMP_BUFF_LEN s"
    and p: "pf = 0 \<or> 1 / MAX_TIME_PERIOD_SEC \<le> pf \<and> pf \<le> 1 / NO_DETECT_DUR_SEC"
  shows "fst (freq_estimate (count_max_det s) (count_min_det s) (avg_time_period s) pf h) = 0 \<or>
         1 / MAX_TIME_PERIOD_SEC \<le> fst (freq_estimate (count_max_det s) (count_min_det s) (avg_time_period s) pf h) \<and>
         fst (freq_estimate (count_max_det s) (count_min_det s) (avg_time_period s) pf h) \<le> 1 / NO_DETECT_DUR_SEC"
proof -
  let ?n = "unat (count_max_det s) + unat (count_min_det s)"
  from inv have n52: "?n \<le> SAMP_BUFF_LEN" by (simp add: scan_inv_def)
  have un: "unat (count_max_det s + count_min_det s) = ?n"
    using n52 by (intro unat_add_small) simp
  show ?thesis
  proof (cases "?n = 0")
    case True
    with inv have "avg_time_period s \<le> 0" by (simp add: scan_inv_def)
    moreover from True un have "count_max_det s + count_min_det s = 0" by (simp add: unat_eq_zero)
    moreover have "0 < EPSILON" by (simp add: pedo_consts)
    ultimately show ?thesis using p by (auto simp: freq_estimate_def Let_def)
  next
    case False
    let ?p = "avg_time_period s / real ?n"
    from False have npos: "0 < ?n" by simp
    then have Npos: "0 < real ?n" by (simp only: of_nat_0_less_iff)
    from inv have h1: "NO_DETECT_DUR_SEC * real ?n \<le> avg_time_period s"
      and h2: "avg_time_period s \<le> MAX_TIME_PERIOD_SEC * real ?n"
      unfolding scan_inv_def by blast+
    from avg_within [OF Npos h1 h2] have lo: "NO_DETECT_DUR_SEC \<le> ?p" and hi: "?p \<le> MAX_TIME_PERIOD_SEC"
      by blast+
    have c: "0 < NO_DETECT_DUR_SEC" "EPSILON < NO_DETECT_DUR_SEC" by (simp_all add: pedo_consts)
    from False un have w: "count_max_det s + count_min_det s > 0"
      by (intro word_pos_unat) simp
    have f: "fst (freq_estimate (count_max_det s) (count_min_det s) (avg_time_period s) pf h) = 1 / ?p"
      using w un lo c by (simp add: freq_estimate_def Let_def)
    have ppos: "0 < ?p" using lo c by linarith
    have "1 / MAX_TIME_PERIOD_SEC \<le> 1 / ?p"
    proof (rule divide_left_mono [OF hi])
      show "0 < MAX_TIME_PERIOD_SEC * ?p" using ppos by (intro mult_pos_pos) (simp_all add: pedo_consts)
    qed simp
    moreover have "1 / ?p \<le> 1 / NO_DETECT_DUR_SEC"
    proof (rule divide_left_mono [OF lo])
      show "0 < ?p * NO_DETECT_DUR_SEC" using ppos c by (intro mult_pos_pos)
    qed simp
    ultimately show ?thesis using f by simp
  qed
qed

lemma step_algo_run_est_ok: "est_ok st \<Longrightarrow> est_ok (fst (step_algo_run b t st out))"
  using step_algo_run_estimates [of b t st out] scan_frame_inv
    amp_estimate_ok freq_estimate_ok
  by (simp add: est_ok_def)

end
