(* ===== verification/Pedometer.thy ===== *)
theory Pedometer
  imports Detector
begin

text \<open>
  The per-sample driver of \<open>main\<close> (pedometer.c lines 141--147 and 160--184): every
  input row advances the synthesised timestamp by \<open>SENSOR_SAMP_INTVL\<close>, is passed to
  \<open>step_algo_preproc\<close>, and, when that returns 1, \<open>step_algo_run\<close> runs on the full
  buffer; then the row is printed with the current step count and label. The program
  state is the record \<open>pedo_state\<close> (the globals and statics of both functions and
  \<open>main\<close>'s \<open>timestamp\<close>); the parsing and printing around it are not modelled. The
  lemmas lift the per-run facts of \<open>Detector\<close> to whole sample sequences.
\<close>

record sensor_row =
  arx :: float
  ary :: float
  arz :: float
  grx :: float
  gry :: float
  grz :: float

record pedo_state =
  pre :: preproc_state
  alg :: algo_state
  algo_out :: algo_out_t
  main_timestamp :: float

text \<open>Lines 141--147: the output record starts at zero and \<open>STATIC\<close>.\<close>

definition algo_out_init :: algo_out_t where
  "algo_out_init =
     \<lparr>step_count = 0, step_type = STATIC, prev_max = 0, prev_min = 0,
      prev_max_ts = 0, prev_min_ts = 0\<rparr>"

definition pedo_init :: pedo_state where
  "pedo_init = \<lparr>pre = preproc_init, alg = algo_init, algo_out = algo_out_init, main_timestamp = 0\<rparr>"

text \<open>Lines 164--170: one input row.\<close>

definition main_step :: "pedo_state \<Rightarrow> sensor_row \<Rightarrow> pedo_state" where
  "main_step ps r =
     (let timestamp = main_timestamp ps + SENSOR_SAMP_INTVL;
          (pre', run_step_algo) = step_algo_preproc (pre ps) timestamp
                                    (arx r) (ary r) (arz r) (grx r) (gry r) (grz r);
          ps1 = ps\<lparr>main_timestamp := timestamp, pre := pre'\<rparr>
      in if run_step_algo = 1 then
           (let (alg', out') = step_algo_run (AccBuff_y pre') (AccBuff_ts pre') (alg ps) (algo_out ps)
            in ps1\<lparr>alg := alg', algo_out := out'\<rparr>)
         else ps1)"

text \<open>The loop of lines 160--184 over the input rows.\<close>

fun main_loop :: "pedo_state \<Rightarrow> sensor_row list \<Rightarrow> pedo_state" where
  "main_loop ps [] = ps"
| "main_loop ps (r # rs) = main_loop (main_step ps r) rs"

text \<open>What line 181 prints for a row besides the row itself: timestamp, step count, label and its code.\<close>

definition row_output :: "pedo_state \<Rightarrow> float \<times> uint \<times> string \<times> nat" where
  "row_output ps =
     (main_timestamp ps, step_count (algo_out ps), step_type_name (step_type (algo_out ps)),
      motion_type_num (step_type (algo_out ps)))"

text \<open>The step total of the summary of line 186.\<close>

definition summary_total :: "pedo_state \<Rightarrow> uint" where
  "summary_total ps = tally_total (tally (alg ps))"

text \<open>
  The batched view of \<open>main\<close>: the samples a sequence of rows hands to \<open>step_algo_preproc\<close>
  (the timestamp advanced by \<open>SENSOR_SAMP_INTVL\<close> before each row, line 164), and the
  complete frames of \<open>SAMP_BUFF_LEN\<close> rows as \<open>step_algo_run\<close> receives them: the
  low-pass-filtered y-axis values, the filter continuing across frames, with their timestamps.
\<close>

fun row_samples :: "float \<Rightarrow> sensor_row list \<Rightarrow> (float \<times> float) list" where
  "row_samples t0 [] = []"
| "row_samples t0 (r # rs) = (t0 + SENSOR_SAMP_INTVL, ary r) # row_samples (t0 + SENSOR_SAMP_INTVL) rs"

definition time_after :: "float \<Rightarrow> nat \<Rightarrow> float" where
  "time_after t0 n = ((\<lambda>t. t + SENSOR_SAMP_INTVL) ^^ n) t0"

function frames_from :: "filter_t \<Rightarrow> float \<Rightarrow> sensor_row list \<Rightarrow> (float list \<times> float list) list" where
  "frames_from lp t0 rows =
     (if length rows < SAMP_BUFF_LEN then []
      else (let xs = take SAMP_BUFF_LEN rows; smp = row_samples t0 xs;
                (lp', ys) = filter_run lp (map ary xs)
            in (ys, map fst smp) # frames_from lp' (time_after t0 SAMP_BUFF_LEN) (drop SAMP_BUFF_LEN rows)))"
  by pat_completeness auto
termination
  by (relation "measure (\<lambda>(_, _, rows). length rows)") auto

declare frames_from.simps [simp del]

subsection \<open>The step-count invariant\<close>

definition count_inv :: "pedo_state \<Rightarrow> bool" where
  "count_inv ps \<longleftrightarrow> step_count (algo_out ps) = summary_total ps"

text \<open>
  The counters after \<open>k\<close> rows: each row not yet processed by the detector is one that
  may still add a step, so counters and buffer fill together stay within the rows read.
\<close>

definition count_bound :: "pedo_state \<Rightarrow> nat \<Rightarrow> bool" where
  "count_bound ps k \<longleftrightarrow>
     preproc_wf (pre ps) \<and> unat (step_count (algo_out ps)) + unat (buf_count (pre ps)) \<le> k \<and>
     tally_sum (tally (alg ps)) + unat (buf_count (pre ps)) \<le> k"

definition counters_le :: "pedo_state \<Rightarrow> pedo_state \<Rightarrow> bool" where
  "counters_le p q \<longleftrightarrow>
     unat (step_count (algo_out p)) \<le> unat (step_count (algo_out q)) \<and>
     unat (num_steps_walk (tally (alg p))) \<le> unat (num_steps_walk (tally (alg q))) \<and>
     unat (num_steps_run (tally (alg p))) \<le> unat (num_steps_run (tally (alg q))) \<and>
     unat (num_steps_hop (tally (alg p))) \<le> unat (num_steps_hop (tally (alg q)))"

text \<open>The driver starts from the y-axis filters that \<open>main\<close> configured.\<close>

lemma pedo_init_filters:
  "lp_filter_y (pre pedo_init) = lp_y filters_init \<and> ll_filter_y (alg pedo_init) = ll_y filters_init"
  by (simp add: pedo_init_def preproc_init_def algo_init_def filters_init_def)

lemma count_inv_init: "count_inv pedo_init"
  by (simp add: count_inv_def summary_total_def pedo_init_def algo_init_def algo_out_init_def
      tally_total_def)

lemma main_step_count_inv:
  assumes "count_inv ps"
  shows "count_inv (main_step ps r)"
proof -
  obtain pre' flag where pp: "step_algo_preproc (pre ps) (main_timestamp ps + SENSOR_SAMP_INTVL)
      (arx r) (ary r) (arz r) (grx r) (gry r) (grz r) = (pre', flag)"
    by (cases "step_algo_preproc (pre ps) (main_timestamp ps + SENSOR_SAMP_INTVL)
      (arx r) (ary r) (arz r) (grx r) (gry r) (grz r)")
  show ?thesis
  proof (cases "flag = 1")
    case True
    from True assms show ?thesis using step_algo_run_steps
      by (simp add: main_step_def pp split_def Let_def count_inv_def summary_total_def)
  next
    case False
    with assms show ?thesis
      by (simp add: main_step_def pp count_inv_def summary_total_def)
  qed
qed

lemma main_loop_count_inv: "count_inv ps \<Longrightarrow> count_inv (main_loop ps rs)"
  by (induction rs arbitrary: ps) (simp_all add: main_step_count_inv)

subsection \<open>The driver runs the detector on consecutive frames\<close>

lemma time_after_0 [simp]: "time_after t0 0 = t0"
  by (simp add: time_after_def)

lemma time_after_Suc_n [simp]: "time_after t0 (Suc n) = time_after t0 n + SENSOR_SAMP_INTVL"
  by (simp add: time_after_def)

lemma time_after_Suc: "time_after (t0 + SENSOR_SAMP_INTVL) n = time_after t0 n + SENSOR_SAMP_INTVL"
  by (induction n) simp_all

lemma row_samples_append:
  "row_samples t0 (xs @ ys) = row_samples t0 xs @ row_samples (time_after t0 (length xs)) ys"
  by (induction xs arbitrary: t0) (simp_all add: time_after_Suc)

lemma row_samples_snd [simp]: "map snd (row_samples t0 xs) = map ary xs"
  by (induction xs arbitrary: t0) simp_all

lemma length_row_samples [simp]: "length (row_samples t0 xs) = length xs"
  by (induction xs arbitrary: t0) simp_all

lemma main_loop_append: "main_loop ps (xs @ ys) = main_loop (main_loop ps xs) ys"
  by (induction xs arbitrary: ps) simp_all

lemma main_step_parts:
  "pre (main_step ps r) = fst (step_algo_preproc (pre ps) (main_timestamp ps + SENSOR_SAMP_INTVL) 0 (ary r) 0 0 0 0) \<and>
   main_timestamp (main_step ps r) = main_timestamp ps + SENSOR_SAMP_INTVL \<and>
   (alg (main_step ps r), algo_out (main_step ps r)) =
     (if snd (step_algo_preproc (pre ps) (main_timestamp ps + SENSOR_SAMP_INTVL) 0 (ary r) 0 0 0 0) = 1
      then step_algo_run
             (AccBuff_y (fst (step_algo_preproc (pre ps) (main_timestamp ps + SENSOR_SAMP_INTVL) 0 (ary r) 0 0 0 0)))
             (AccBuff_ts (fst (step_algo_preproc (pre ps) (main_timestamp ps + SENSOR_SAMP_INTVL) 0 (ary r) 0 0 0 0)))
             (alg ps) (algo_out ps)
      else (alg ps, algo_out ps))"
  by (simp add: main_step_def Let_def split_def step_algo_preproc_ignores [of _ _ "arx r"])

lemma main_loop_partial:
  assumes "preproc_wf (pre ps)" and "unat (buf_count (pre ps)) + length xs < SAMP_BUFF_LEN"
  shows "pre (main_loop ps xs) = fst (preproc_run (pre ps) (row_samples (main_timestamp ps) xs)) \<and>
         alg (main_loop ps xs) = alg ps \<and> algo_out (main_loop ps xs) = algo_out ps \<and>
         main_timestamp (main_loop ps xs) = time_after (main_timestamp ps) (length xs)"
  using assms
proof (induction xs arbitrary: ps)
  case Nil
  then show ?case by simp
next
  case (Cons x xs)
  let ?t = "main_timestamp ps + SENSOR_SAMP_INTVL"
  note M = main_step_parts [of ps x]
  note S = step_algo_preproc_step [OF Cons.prems(1), of ?t 0 "ary x" 0 0 0 0]
  from Cons.prems(2) have c: "Suc (unat (buf_count (pre ps))) \<noteq> SAMP_BUFF_LEN" by simp
  with S have flag: "snd (step_algo_preproc (pre ps) ?t 0 (ary x) 0 0 0 0) \<noteq> 1" by simp
  have wf1: "preproc_wf (pre (main_step ps x))" using M S by simp
  have c1: "unat (buf_count (pre (main_step ps x))) + length xs < SAMP_BUFF_LEN"
    using M S Cons.prems(2) by (simp del: SAMP_BUFF_LEN_val)
  from Cons.IH [OF wf1 c1] M flag show ?case
    by (simp add: Let_def time_after_Suc del: SAMP_BUFF_LEN_val)
qed

lemma main_loop_frame:
  assumes wf: "preproc_wf (pre ps)" and c0: "buf_count (pre ps) = 0" and len: "length xs = SAMP_BUFF_LEN"
  shows "preproc_wf (pre (main_loop ps xs)) \<and> buf_count (pre (main_loop ps xs)) = 0 \<and>
         lp_filter_y (pre (main_loop ps xs)) = fst (filter_run (lp_filter_y (pre ps)) (map ary xs)) \<and>
         main_timestamp (main_loop ps xs) = time_after (main_timestamp ps) SAMP_BUFF_LEN \<and>
         (alg (main_loop ps xs), algo_out (main_loop ps xs)) =
           step_algo_run (snd (filter_run (lp_filter_y (pre ps)) (map ary xs)))
             (map fst (row_samples (main_timestamp ps) xs)) (alg ps) (algo_out ps)"
proof -
  from len obtain ys x where xs: "xs = ys @ [x]" and ys: "length ys = SAMP_BUFF_LEN - 1"
    by (metis SAMP_BUFF_LEN_val append_butlast_last_id diff_Suc_1 length_butlast
        list.size(3) zero_neq_numeral)
  let ?p1 = "main_loop ps ys"
  let ?smp = "row_samples (main_timestamp ps) ys"
  let ?t = "main_timestamp ?p1 + SENSOR_SAMP_INTVL"
  have lt: "unat (buf_count (pre ps)) + length ys < SAMP_BUFF_LEN"
    and lt': "unat (buf_count (pre ps)) + length ?smp < SAMP_BUFF_LEN" using c0 ys by simp_all
  note P = main_loop_partial [OF wf lt]
  note Q = preproc_run_partial [OF wf lt']
  have wf1: "preproc_wf (pre ?p1)" and c1: "Suc (unat (buf_count (pre ?p1))) = SAMP_BUFF_LEN"
    using P Q c0 ys by simp_all
  note S = step_algo_preproc_step [OF wf1, of ?t 0 "ary x" 0 0 0 0]
  have cnt: "buf_count (fst (step_algo_preproc (pre ?p1) ?t 0 (ary x) 0 0 0 0)) = 0"
    using step_algo_preproc_count [of "pre ?p1" ?t 0 "ary x" 0 0 0 0] count_plus_one [of "buf_count (pre ?p1)"] c1
    by simp
  from wf have blen: "length (AccBuff_y (pre ps)) = SAMP_BUFF_LEN" "length (AccBuff_ts (pre ps)) = SAMP_BUFF_LEN"
    by (simp_all add: preproc_wf_def)
  have tm: "main_timestamp ?p1 = time_after (main_timestamp ps) (length ys)" using P by simp
  define pre1 where "pre1 = pre ?p1"
  define pre2 where "pre2 = fst (step_algo_preproc pre1 ?t 0 (ary x) 0 0 0 0)"
  have L1: "lp_filter_y pre1 = fst (filter_run (lp_filter_y (pre ps)) (map ary ys))"
    and Y1: "AccBuff_y pre1 = snd (filter_run (lp_filter_y (pre ps)) (map ary ys)) @ [AccBuff_y (pre ps) ! (SAMP_BUFF_LEN - 1)]"
    and T1: "AccBuff_ts pre1 = map fst ?smp @ [AccBuff_ts (pre ps) ! (SAMP_BUFF_LEN - 1)]"
    using P Q c0 ys blen by (simp_all add: pre1_def drop_last_singleton)
  have c51: "unat (buf_count pre1) = SAMP_BUFF_LEN - 1" using c1 by (simp add: pre1_def del: SAMP_BUFF_LEN_val)
  have ly: "length (snd (filter_run (lp_filter_y (pre ps)) (map ary ys))) = SAMP_BUFF_LEN - 1"
    using ys by simp
  have Y2: "AccBuff_y pre2 = snd (filter_run (lp_filter_y (pre ps)) (map ary xs))"
    and L2: "lp_filter_y pre2 = fst (filter_run (lp_filter_y (pre ps)) (map ary xs))"
    using Y1 L1 c51 ly
    by (simp_all add: pre2_def step_algo_preproc_fields xs filter_run_snoc
        split_def Let_def list_update_append del: SAMP_BUFF_LEN_val)
  have T2: "AccBuff_ts pre2 = map fst (row_samples (main_timestamp ps) xs)"
    using T1 c51 ys tm
    by (simp add: pre2_def pre1_def step_algo_preproc_fields xs row_samples_append
        list_update_append del: SAMP_BUFF_LEN_val)
  have M: "pre (main_loop ps xs) = pre2 \<and>
      main_timestamp (main_loop ps xs) = time_after (main_timestamp ps) SAMP_BUFF_LEN \<and>
      (alg (main_loop ps xs), algo_out (main_loop ps xs)) =
        step_algo_run (AccBuff_y pre2) (AccBuff_ts pre2) (alg ps) (algo_out ps)"
  proof -
    have fl: "snd (step_algo_preproc pre1 ?t 0 (ary x) 0 0 0 0) = 1"
      using S c1 by (simp add: pre1_def)
    have t52: "time_after (main_timestamp ps) SAMP_BUFF_LEN = main_timestamp ?p1 + SENSOR_SAMP_INTVL"
    proof -
      have e: "SAMP_BUFF_LEN = Suc (length ys)" using ys by simp
      show ?thesis unfolding e time_after_Suc_n tm ..
    qed
    show ?thesis
      using main_step_parts [of ?p1 x] fl t52 P
      by (simp add: xs main_loop_append pre2_def pre1_def del: SAMP_BUFF_LEN_val)
  qed
  show ?thesis
    using M S cnt Y2 L2 T2 by (simp add: pre2_def pre1_def)
qed

lemma main_loop_frames:
  assumes "preproc_wf (pre ps)" and "buf_count (pre ps) = 0"
  shows "(alg (main_loop ps rows), algo_out (main_loop ps rows)) =
           run_frames (alg ps) (algo_out ps) (frames_from (lp_filter_y (pre ps)) (main_timestamp ps) rows)"
  using assms
proof (induction "length rows" arbitrary: ps rows rule: less_induct)
  case less
  show ?case
  proof (cases "length rows < SAMP_BUFF_LEN")
    case True
    with less.prems have "unat (buf_count (pre ps)) + length rows < SAMP_BUFF_LEN" by simp
    from main_loop_partial [OF less.prems(1) this] True show ?thesis
      by (simp add: frames_from.simps [of _ _ rows] del: SAMP_BUFF_LEN_val)
  next
    case False
    let ?xs = "take SAMP_BUFF_LEN rows" and ?rest = "drop SAMP_BUFF_LEN rows"
    let ?ps1 = "main_loop ps ?xs"
    have lx: "length ?xs = SAMP_BUFF_LEN" using False by simp
    note F = main_loop_frame [OF less.prems lx]
    have lr: "length ?rest < length rows" using False by simp
    from F have wf1: "preproc_wf (pre ?ps1)" and c1: "buf_count (pre ?ps1) = 0" by simp_all
    note IH = less.hyps [OF lr wf1 c1]
    have rows: "rows = ?xs @ ?rest" by simp
    have "main_loop ps rows = main_loop ?ps1 ?rest" by (subst rows) (rule main_loop_append)
    moreover have "alg ?ps1 = fst (step_algo_run (snd (filter_run (lp_filter_y (pre ps)) (map ary ?xs)))
          (map fst (row_samples (main_timestamp ps) ?xs)) (alg ps) (algo_out ps)) \<and>
        algo_out ?ps1 = snd (step_algo_run (snd (filter_run (lp_filter_y (pre ps)) (map ary ?xs)))
          (map fst (row_samples (main_timestamp ps) ?xs)) (alg ps) (algo_out ps))"
      using F by (simp add: prod_eq_iff)
    ultimately show ?thesis using IH F False
      by (simp add: frames_from.simps [of _ _ rows] Let_def split_def del: SAMP_BUFF_LEN_val)
  qed
qed

text \<open>
  C3. Refinement of the driver: for every input sequence, the detector state and the output
  record after \<open>main\<close> has processed the rows are those of running \<open>step_algo_run\<close> on the
  consecutive complete frames of the input (low-pass-filtered \<open>ary\<close> values and their
  timestamps), starting from the initial state; a trailing partial frame changes neither.
\<close>

theorem main_loop_refines:
  "(alg (main_loop pedo_init rows), algo_out (main_loop pedo_init rows)) =
     run_frames algo_init algo_out_init (frames_from lp_filter_init 0 rows)"
proof -
  have "preproc_wf (pre pedo_init)" "buf_count (pre pedo_init) = 0"
    by (simp_all add: pedo_init_def preproc_init_wf) (simp add: preproc_init_def)
  from main_loop_frames [OF this, of rows] show ?thesis
    by (simp add: pedo_init_def preproc_init_def)
qed

subsection \<open>Bounded counters\<close>

lemma counters_le_refl: "counters_le p p"
  by (simp add: counters_le_def)

lemma counters_le_trans: "counters_le p q \<Longrightarrow> counters_le q r \<Longrightarrow> counters_le p r"
  by (auto simp: counters_le_def)

lemma count_bound_init: "count_bound pedo_init 0"
  using preproc_init_wf
  by (simp add: count_bound_def pedo_init_def algo_init_def algo_out_init_def tally_sum_def preproc_init_def)

lemma main_step_bound:
  assumes b: "count_bound ps k" and k: "Suc k < 2 ^ 32"
  shows "count_bound (main_step ps r) (Suc k) \<and> counters_le ps (main_step ps r)"
proof -
  let ?t = "main_timestamp ps + SENSOR_SAMP_INTVL"
  let ?p = "step_algo_preproc (pre ps) ?t 0 (ary r) 0 0 0 0"
  from b have wf: "preproc_wf (pre ps)" by (simp add: count_bound_def)
  note M = main_step_parts [of ps r]
  note S = step_algo_preproc_step [OF wf, of ?t 0 "ary r" 0 0 0 0]
  have c: "unat (buf_count (pre ps)) < SAMP_BUFF_LEN" using wf by (simp add: preproc_wf_def)
  show ?thesis
  proof (cases "Suc (unat (buf_count (pre ps))) = SAMP_BUFF_LEN")
    case False
    with S c have "unat (buf_count (fst ?p)) = Suc (unat (buf_count (pre ps)))" "snd ?p \<noteq> 1"
      by (simp_all del: SAMP_BUFF_LEN_val)
    with M S b show ?thesis by (simp add: count_bound_def counters_le_def del: SAMP_BUFF_LEN_val)
  next
    case True
    with S have flag: "snd ?p = 1" and c0: "unat (buf_count (fst ?p)) = 0" by simp_all
    let ?bf = "AccBuff_y (fst ?p)" and ?bt = "AccBuff_ts (fst ?p)"
    let ?cm = "count_min_det (scan_frame (fill_frame ?bf ?bt (unat (TC_samples (ll_filter_y (alg ps)))) (alg ps)) (algo_out ps))"
    obtain m where R: "step_count (snd (step_algo_run ?bf ?bt (alg ps) (algo_out ps))) = step_count (algo_out ps) + ?cm"
      "tally (fst (step_algo_run ?bf ?bt (alg ps) (algo_out ps))) = tally_add m ?cm (tally (alg ps))"
      using step_algo_run_counters by blast
    have cm: "unat ?cm \<le> SAMP_BUFF_LEN" by (rule scan_frame_cmin_bound)
    from b True have s1: "unat (step_count (algo_out ps)) + SAMP_BUFF_LEN \<le> Suc k"
      and s2: "tally_sum (tally (alg ps)) + SAMP_BUFF_LEN \<le> Suc k" by (simp_all add: count_bound_def)
    have u: "unat (step_count (algo_out ps) + ?cm) = unat (step_count (algo_out ps)) + unat ?cm"
      using s1 cm k by (intro unat_add_small) linarith
    have ts: "tally_sum (tally_add m ?cm (tally (alg ps))) \<le> Suc k"
      using tally_add_sum [of m ?cm "tally (alg ps)"] s2 cm by linarith
    have mono: "unat (num_steps_walk (tally (alg ps))) \<le> unat (num_steps_walk (tally_add m ?cm (tally (alg ps)))) \<and>
        unat (num_steps_run (tally (alg ps))) \<le> unat (num_steps_run (tally_add m ?cm (tally (alg ps)))) \<and>
        unat (num_steps_hop (tally (alg ps))) \<le> unat (num_steps_hop (tally_add m ?cm (tally (alg ps))))"
      using s2 cm k by (intro tally_add_mono) linarith
    have "alg (main_step ps r) = fst (step_algo_run ?bf ?bt (alg ps) (algo_out ps))"
      "algo_out (main_step ps r) = snd (step_algo_run ?bf ?bt (alg ps) (algo_out ps))"
      using M flag by (simp_all add: prod_eq_iff)
    with M S R u ts mono s1 cm c0 show ?thesis
      by (simp add: count_bound_def counters_le_def del: SAMP_BUFF_LEN_val)
  qed
qed

lemma main_loop_bound:
  "count_bound ps k \<Longrightarrow> k + length rs < 2 ^ 32 \<Longrightarrow>
   count_bound (main_loop ps rs) (k + length rs) \<and> counters_le ps (main_loop ps rs)"
proof (induction rs arbitrary: ps k)
  case Nil
  then show ?case by (simp add: counters_le_refl)
next
  case (Cons r rs)
  from main_step_bound [OF Cons.prems(1)] Cons.prems(2)
  have S: "count_bound (main_step ps r) (Suc k)" "counters_le ps (main_step ps r)" by simp_all
  from Cons.IH [OF S(1)] Cons.prems(2) S(2) show ?case
    by (auto intro: counters_le_trans)
qed

subsection \<open>Monotonic counters\<close>

text \<open>
  C8. Over any run of fewer than \<open>2^32\<close> rows, reading more rows never decreases the
  step count or any of the walk, run and hop counters of the detector, and the step count
  never exceeds the number of rows read (a row contributes at most one step): the 32-bit
  counters of lines 390--397 do not wrap on such inputs.
\<close>

theorem main_loop_counts_monotone:
  assumes "length (xs @ ys) < 2 ^ 32"
  shows "counters_le (main_loop pedo_init xs) (main_loop pedo_init (xs @ ys)) \<and>
         unat (step_count (algo_out (main_loop pedo_init (xs @ ys)))) \<le> length (xs @ ys)"
proof -
  from assms have lx: "0 + length xs < 2 ^ 32" by simp
  note A = main_loop_bound [OF count_bound_init lx]
  from assms have "0 + length xs + length ys < 2 ^ 32" by simp
  note B = main_loop_bound [OF conjunct1 [OF A] this]
  from B show ?thesis by (simp add: main_loop_append count_bound_def)
qed

theorem main_loop_counts_monotone_witness:
  "counters_le (main_loop pedo_init []) (main_loop pedo_init [\<lparr>arx = 0, ary = 9.81, arz = 0, grx = 0, gry = 0, grz = 0\<rparr>]) \<and>
   unat (step_count (algo_out (main_loop pedo_init [\<lparr>arx = 0, ary = 9.81, arz = 0, grx = 0, gry = 0, grz = 0\<rparr>]))) \<le> 1"
  using main_loop_counts_monotone [of "[]" "[\<lparr>arx = 0, ary = 9.81, arz = 0, grx = 0, gry = 0, grz = 0\<rparr>]"]
  by simp

subsection \<open>The saved estimates\<close>

text \<open>
  C17. For every input, the estimates the detector keeps between runs are 0 or genuine
  measurements: the frequency lies in \<open>[1 / MAX_TIME_PERIOD_SEC, 1 / NO_DETECT_DUR_SEC]\<close>
  (the \<open>> EPSILON\<close> guard never lets a zero period through) and the amplitude exceeds
  \<open>CLOSE_TO_ZERO\<close>.
\<close>

theorem main_loop_estimates:
  "est_ok (alg (main_loop pedo_init rows))"
proof -
  have "est_ok (alg (main_loop ps rows))" if "est_ok (alg ps)" for ps
    using that
    by (induction rows arbitrary: ps) (simp_all add: main_step_def Let_def split_def step_algo_run_est_ok)
  moreover have "est_ok (alg pedo_init)" by (simp add: est_ok_def pedo_init_def algo_init_def)
  ultimately show ?thesis .
qed

end
