(* ===== verification/Main_IO.thy ===== *)
theory Main_IO
  imports Pedometer "HOL-Library.While_Combinator"
begin


text \<open>
  The input and output of \<open>main\<close> (pedometer.c lines 74--190): the argument check, the
  opening of both files, the skipping of the two header lines, the read loop of
  \<open>fgets\<close> and \<open>sscanf\<close> that feeds each line to the driver of \<open>Pedometer\<close>, the output
  rows and the summary. The world is a record of the readable files (their contents) and
  the writable names; the program's observable result is its exit code, what it prints on
  standard output and the lines of the output file, each line kept as the values its
  format string prints (the theory \<open>Printf\<close> renders them as text).
  \<open>fgets\<close> is modelled on the character stream; \<open>sscanf\<close> on a line is the list of
  conversions the C library recognises in it, a parameter \<open>scan\<close> of the model (the
  theory \<open>Scanf\<close> defines the library's own, \<open>csv_scan\<close>), assigned to the variables in the order of the format as
  \<open>sscanf\<close> does. A write past the end of \<open>date\<close> or \<open>time\<close> (12 bytes) is undefined
  behaviour of the program and a value \<open>Inl\<close> of the model.
\<close>

definition MAX_CHAR_PER_LINE :: nat where
  "MAX_CHAR_PER_LINE = 120"

text \<open>
  \<open>fgets(buf, n, f)\<close>: \<open>NULL\<close> at end of file; otherwise the characters up to and
  including the first newline, but at most \<open>n - 1\<close> of them; the rest stays in the stream.
\<close>

definition line_len :: "string \<Rightarrow> nat" where
  "line_len s = (let p = length (takeWhile (\<lambda>c. c \<noteq> CHR 0x0A) s) in if p < length s then Suc p else p)"

definition fgets :: "nat \<Rightarrow> string \<Rightarrow> (string \<times> string) option" where
  "fgets n s = (if s = [] then None else let k = min (n - 1) (line_len s) in Some (take k s, drop k s))"

text \<open>The conversions of \<open>sscanf\<close>: \<open>%d\<close>, \<open>%[^,]\<close> and \<open>%f\<close>.\<close>

datatype conv = CInt int | CStr string | CFlt float

text \<open>The variables \<open>main\<close> scans into (lines 80--83); they keep their values from line to line.\<close>

record csv_vars =
  rec_id :: uint
  sen_id :: uint
  date :: string
  time :: string
  sample :: sensor_row

definition csv_vars_init :: csv_vars where
  "csv_vars_init =
     \<lparr>rec_id = 0, sen_id = 0, date = [], time = [],
      sample = \<lparr>arx = 0, ary = 0, arz = 0, grx = 0, gry = 0, grz = 0\<rparr>\<rparr>"

datatype c_fault = Overflow string

text \<open>
  Assigning conversion \<open>c\<close> to the \<open>i\<close>-th target of the format of line 162: \<open>None\<close> when
  it does not match the target (\<open>sscanf\<close> stops there), \<open>Inl\<close> when a string does not fit
  its 12-byte array with the terminating zero.
\<close>

fun assign_field :: "nat \<Rightarrow> conv \<Rightarrow> csv_vars \<Rightarrow> (c_fault + csv_vars) option" where
  "assign_field 0 (CInt n) v = Some (Inr (v\<lparr>rec_id := word_of_int n\<rparr>))"
| "assign_field (Suc 0) (CInt n) v = Some (Inr (v\<lparr>sen_id := word_of_int n\<rparr>))"
| "assign_field (Suc (Suc 0)) (CStr d) v =
     Some (if 12 \<le> length d then Inl (Overflow ''date'') else Inr (v\<lparr>date := d\<rparr>))"
| "assign_field (Suc (Suc (Suc 0))) (CStr d) v =
     Some (if 12 \<le> length d then Inl (Overflow ''time'') else Inr (v\<lparr>time := d\<rparr>))"
| "assign_field (Suc (Suc (Suc (Suc 0)))) (CFlt x) v = Some (Inr (v\<lparr>sample := (sample v)\<lparr>arx := x\<rparr>\<rparr>))"
| "assign_field (Suc (Suc (Suc (Suc (Suc 0))))) (CFlt x) v = Some (Inr (v\<lparr>sample := (sample v)\<lparr>ary := x\<rparr>\<rparr>))"
| "assign_field (Suc (Suc (Suc (Suc (Suc (Suc 0)))))) (CFlt x) v = Some (Inr (v\<lparr>sample := (sample v)\<lparr>arz := x\<rparr>\<rparr>))"
| "assign_field (Suc (Suc (Suc (Suc (Suc (Suc (Suc 0))))))) (CFlt x) v = Some (Inr (v\<lparr>sample := (sample v)\<lparr>grx := x\<rparr>\<rparr>))"
| "assign_field (Suc (Suc (Suc (Suc (Suc (Suc (Suc (Suc 0)))))))) (CFlt x) v = Some (Inr (v\<lparr>sample := (sample v)\<lparr>gry := x\<rparr>\<rparr>))"
| "assign_field (Suc (Suc (Suc (Suc (Suc (Suc (Suc (Suc (Suc 0))))))))) (CFlt x) v = Some (Inr (v\<lparr>sample := (sample v)\<lparr>grz := x\<rparr>\<rparr>))"
| "assign_field _ _ v = None"

text \<open>\<open>sscanf\<close> of line 162: the conversions are assigned in order until one does not match.\<close>

fun sscanf_assign :: "nat \<Rightarrow> conv list \<Rightarrow> csv_vars \<Rightarrow> c_fault + csv_vars" where
  "sscanf_assign i [] v = Inr v"
| "sscanf_assign i (c # cs) v =
     (case assign_field i c v of
        None \<Rightarrow> Inr v
      | Some (Inl e) \<Rightarrow> Inl e
      | Some (Inr v') \<Rightarrow> sscanf_assign (Suc i) cs v')"

text \<open>What \<open>main\<close> prints on standard output and into the output file.\<close>

datatype msg =
    Usage "string option"
  | CannotOpenInput string
  | CannotOpenOutput string
  | CannotReadHeader string
  | Summary float int int int int
  | Done

datatype out_line =
    HeaderLine
  | DataLine csv_vars float int string nat

record world =
  files :: "string \<Rightarrow> string option"
  writable :: "string \<Rightarrow> bool"

record main_result =
  exit_code :: nat
  stdout :: "msg list"
  out_file :: "out_line list option"

text \<open>Lines 181--183: the row printed after each sample; \<open>%d\<close> prints the unsigned counters as \<open>int\<close>.\<close>

definition data_line :: "csv_vars \<Rightarrow> pedo_state \<Rightarrow> out_line" where
  "data_line v ps =
     DataLine v (main_timestamp ps) (sint (step_count (algo_out ps)))
       (step_type_name (step_type (algo_out ps))) (motion_type_num (step_type (algo_out ps)))"

text \<open>Lines 150--156: skipping the two header lines; \<open>None\<close> when the file ends first.\<close>

fun skip_lines :: "nat \<Rightarrow> string \<Rightarrow> string option" where
  "skip_lines 0 s = Some s"
| "skip_lines (Suc n) s = (case fgets MAX_CHAR_PER_LINE s of None \<Rightarrow> None | Some (_, s') \<Rightarrow> skip_lines n s')"

record loop_st =
  rest :: string
  vars :: csv_vars
  pst :: pedo_state
  out_rows :: "out_line list"

text \<open>One iteration of the loop of lines 159--184.\<close>

definition main_iter :: "(string \<Rightarrow> conv list) \<Rightarrow> loop_st \<Rightarrow> c_fault + loop_st" where
  "main_iter scan s =
     (case fgets MAX_CHAR_PER_LINE (rest s) of
        None \<Rightarrow> Inr s
      | Some (line, r) \<Rightarrow>
          (case sscanf_assign 0 (scan line) (vars s) of
             Inl e \<Rightarrow> Inl e
           | Inr v \<Rightarrow>
               (let ps' = main_step (pst s) (sample v)
                in Inr (s\<lparr>rest := r, vars := v, pst := ps', out_rows := out_rows s @ [data_line v ps']\<rparr>))))"

text \<open>The loop itself: it runs while \<open>fgets\<close> returns a line (and the program is defined).\<close>

definition main_read_loop :: "(string \<Rightarrow> conv list) \<Rightarrow> loop_st \<Rightarrow> (c_fault + loop_st) option" where
  "main_read_loop scan s =
     while_option (\<lambda>x. case x of Inl _ \<Rightarrow> False | Inr s \<Rightarrow> rest s \<noteq> [])
       (\<lambda>x. case x of Inl e \<Rightarrow> Inl e | Inr s \<Rightarrow> main_iter scan s) (Inr s)"

text \<open>Lines 186--188: the summary and the exit.\<close>

definition summary_msgs :: "pedo_state \<Rightarrow> msg list" where
  "summary_msgs ps =
     [Summary (main_timestamp ps) (sint (summary_total ps)) (sint (num_steps_walk (tally (alg ps))))
        (sint (num_steps_run (tally (alg ps)))) (sint (num_steps_hop (tally (alg ps)))), Done]"

definition main_finish :: "loop_st \<Rightarrow> main_result" where
  "main_finish s = \<lparr>exit_code = 0, stdout = summary_msgs (pst s), out_file = Some (HeaderLine # out_rows s)\<rparr>"

text \<open>The state when the loop starts: the stream after the header, the variables of lines 80--86 zero.\<close>

definition loop_init :: "string \<Rightarrow> loop_st" where
  "loop_init body = \<lparr>rest = body, vars = csv_vars_init, pst = pedo_init, out_rows = []\<rparr>"

text \<open>\<open>main(argc, argv)\<close>: the error exits of lines 91--105 and 150--156, then the loop.\<close>

definition main_prog :: "(string \<Rightarrow> conv list) \<Rightarrow> string list \<Rightarrow> world \<Rightarrow> (c_fault + main_result) option" where
  "main_prog scan argv w =
     (if length argv \<noteq> 3 then
        Some (Inr \<lparr>exit_code = 1, stdout = [Usage (if argv = [] then None else Some (hd argv))], out_file = None\<rparr>)
      else case files w (argv ! 1) of
        None \<Rightarrow> Some (Inr \<lparr>exit_code = 1, stdout = [CannotOpenInput (argv ! 1)], out_file = None\<rparr>)
      | Some content \<Rightarrow>
          if \<not> writable w (argv ! 2) then
            Some (Inr \<lparr>exit_code = 1, stdout = [CannotOpenOutput (argv ! 2)], out_file = None\<rparr>)
          else case skip_lines 2 content of
            None \<Rightarrow> Some (Inr \<lparr>exit_code = 1, stdout = [CannotReadHeader (argv ! 2)], out_file = Some []\<rparr>)
          | Some body \<Rightarrow>
              map_option (\<lambda>x. case x of Inl e \<Rightarrow> Inl e | Inr s \<Rightarrow> Inr (main_finish s))
                (main_read_loop scan (loop_init body)))"

text \<open>The setup failures of lines 91--105 and 150--156.\<close>

definition setup_fails :: "string list \<Rightarrow> world \<Rightarrow> bool" where
  "setup_fails argv w \<longleftrightarrow>
     length argv \<noteq> 3 \<or> files w (argv ! 1) = None \<or> \<not> writable w (argv ! 2) \<or>
     skip_lines 2 (the (files w (argv ! 1))) = None"

text \<open>
  The reference reading of the loop: the stream cut into the pieces \<open>fgets\<close> returns, and
  each piece processed in turn (\<open>line_step\<close>); the variables after each piece, as
  \<open>sscanf\<close> leaves them (a piece that converts nothing leaves the previous values); the
  output rows of a sequence of samples.
\<close>

function fgets_lines :: "string \<Rightarrow> string list" where
  "fgets_lines s =
     (case fgets MAX_CHAR_PER_LINE s of None \<Rightarrow> [] | Some (l, r) \<Rightarrow> l # fgets_lines r)"
  by pat_completeness auto
termination
proof (relation "measure length")
  fix s x l r
  assume f: "fgets MAX_CHAR_PER_LINE s = Some x" "(l, r) = x"
  then have "s \<noteq> []" by (auto simp: fgets_def)
  then have "0 < line_len s" by (auto simp: line_len_def Let_def)
  moreover from f have "r = drop (min (MAX_CHAR_PER_LINE - 1) (line_len s)) s"
    by (auto simp: fgets_def Let_def split: if_splits)
  ultimately show "(r, s) \<in> measure length"
    using \<open>s \<noteq> []\<close> by (simp add: MAX_CHAR_PER_LINE_def)
qed simp

declare fgets_lines.simps [simp del]

definition line_step :: "(string \<Rightarrow> conv list) \<Rightarrow> string \<Rightarrow> loop_st \<Rightarrow> c_fault + loop_st" where
  "line_step scan line s =
     (case sscanf_assign 0 (scan line) (vars s) of
        Inl e \<Rightarrow> Inl e
      | Inr v \<Rightarrow>
          (let ps' = main_step (pst s) (sample v)
           in Inr (s\<lparr>vars := v, pst := ps', out_rows := out_rows s @ [data_line v ps']\<rparr>)))"

fun run_lines :: "(string \<Rightarrow> conv list) \<Rightarrow> string list \<Rightarrow> loop_st \<Rightarrow> c_fault + loop_st" where
  "run_lines scan [] s = Inr s"
| "run_lines scan (l # ls) s = (case line_step scan l s of Inl e \<Rightarrow> Inl e | Inr s' \<Rightarrow> run_lines scan ls s')"

fun scan_vars :: "(string \<Rightarrow> conv list) \<Rightarrow> csv_vars \<Rightarrow> string list \<Rightarrow> c_fault + csv_vars list" where
  "scan_vars scan v [] = Inr []"
| "scan_vars scan v (l # ls) =
     (case sscanf_assign 0 (scan l) v of
        Inl e \<Rightarrow> Inl e
      | Inr v' \<Rightarrow> (case scan_vars scan v' ls of Inl e \<Rightarrow> Inl e | Inr vs \<Rightarrow> Inr (v' # vs)))"

text \<open>The labels and codes of the specification's output format (section 6).\<close>

definition label_table :: "(string \<times> nat) list" where
  "label_table = [(''STATIONARY'', 0), (''WALKING'', 1), (''HOPPING'', 2), (''RUNNING'', 3)]"

fun row_label_ok :: "out_line \<Rightarrow> bool" where
  "row_label_ok HeaderLine = True"
| "row_label_ok (DataLine v t c l n) = ((l, n) \<in> set label_table)"

definition rows_inv :: "loop_st \<Rightarrow> bool" where
  "rows_inv s \<longleftrightarrow>
     count_inv (pst s) \<and> list_all row_label_ok (out_rows s) \<and>
     (out_rows s \<noteq> [] \<longrightarrow> last (out_rows s) = data_line (vars s) (pst s))"

fun rows_of :: "pedo_state \<Rightarrow> csv_vars list \<Rightarrow> out_line list" where
  "rows_of ps [] = []"
| "rows_of ps (v # vs) = (let ps' = main_step ps (sample v) in data_line v ps' # rows_of ps' vs)"

text \<open>The \<open>step_count\<close> column of a row.\<close>

fun row_count :: "out_line \<Rightarrow> int" where
  "row_count (DataLine v t c l n) = c"
| "row_count HeaderLine = 0"

text \<open>A sample input: two header lines and one data line, scanned into fixed values.\<close>

definition demo_file :: string where
  "demo_file = ''h1\<newline>h2\<newline>r1\<newline>''"

definition demo_scan :: "string \<Rightarrow> conv list" where
  "demo_scan l = [CInt 1, CInt 7, CStr ''d'', CStr ''t'', CFlt 0, CFlt 9.81, CFlt 0, CFlt 0, CFlt 0, CFlt 0]"

definition demo_world :: world where
  "demo_world = \<lparr>files = (\<lambda>n. if n = ''in.csv'' then Some demo_file else None), writable = (\<lambda>n. True)\<rparr>"

definition demo_result :: main_result where
  "demo_result =
     \<lparr>exit_code = 0, stdout = summary_msgs (main_step pedo_init \<lparr>arx = 0, ary = 9.81, arz = 0, grx = 0, gry = 0, grz = 0\<rparr>),
      out_file = Some [HeaderLine, DataLine \<lparr>rec_id = 1, sen_id = 7, date = ''d'', time = ''t'',
         sample = \<lparr>arx = 0, ary = 9.81, arz = 0, grx = 0, gry = 0, grz = 0\<rparr>\<rparr> (1 / 104) 0 ''STATIONARY'' 0]\<rparr>"

subsection \<open>The stream and the read loop\<close>


lemma line_len_pos: "s \<noteq> [] \<Longrightarrow> 0 < line_len s"
  by (auto simp: line_len_def Let_def)

lemma line_len_le: "line_len s \<le> length s"
  by (simp add: line_len_def Let_def length_takeWhile_le Suc_leI)

lemma fgets_Nil [simp]: "fgets n [] = None"
  by (simp add: fgets_def)

lemma fgets_None [simp]: "fgets n s = None \<longleftrightarrow> s = []"
  by (simp add: fgets_def Let_def)

lemma fgets_Some_eq:
  "fgets n s = Some (l, r) \<Longrightarrow>
   s \<noteq> [] \<and> l = take (min (n - 1) (line_len s)) s \<and> r = drop (min (n - 1) (line_len s)) s"
  by (auto simp: fgets_def Let_def split: if_splits)

lemma fgets_Some:
  assumes "fgets n s = Some (l, r)" and "2 \<le> n"
  shows "l @ r = s \<and> l \<noteq> [] \<and> length l \<le> n - 1 \<and> length r < length s"
proof -
  from assms(1) have s: "s \<noteq> []" by (auto simp: fgets_def)
  let ?k = "min (n - 1) (line_len s)"
  from fgets_Some_eq [OF assms(1)] have lr: "l = take ?k s" "r = drop ?k s" by simp_all
  have "0 < ?k" using line_len_pos [OF s] assms(2) by simp
  moreover have "?k \<le> length s" using line_len_le [of s] by simp
  ultimately show ?thesis using lr s by auto
qed

lemma main_iter_rest:
  assumes "rest s \<noteq> []" and "main_iter scan s = Inr s'"
  shows "length (rest s') < length (rest s)"
proof -
  obtain l r where f: "fgets MAX_CHAR_PER_LINE (rest s) = Some (l, r)"
    using assms(1) by (cases "fgets MAX_CHAR_PER_LINE (rest s)") auto
  from fgets_Some [OF f] have "length r < length (rest s)" by (simp add: MAX_CHAR_PER_LINE_def)
  with assms(2) f show ?thesis
    by (auto simp: main_iter_def Let_def split: sum.splits)
qed

lemma main_read_loop_terminates: "\<exists>r. main_read_loop scan s = Some r"
  unfolding main_read_loop_def
proof (rule measure_while_option_Some [where P = "\<lambda>_. True"
      and f = "\<lambda>x. case x of Inl _ \<Rightarrow> 0 | Inr s \<Rightarrow> Suc (length (rest s))"])
  fix x :: "c_fault + loop_st"
  assume b: "case x of Inl _ \<Rightarrow> False | Inr s \<Rightarrow> rest s \<noteq> []"
  then obtain t where x: "x = Inr t" and t: "rest t \<noteq> []" by (cases x) auto
  show "True \<and> (case (case x of Inl e \<Rightarrow> Inl e | Inr s \<Rightarrow> main_iter scan s) of Inl _ \<Rightarrow> 0
                 | Inr s \<Rightarrow> Suc (length (rest s))) < (case x of Inl _ \<Rightarrow> 0 | Inr s \<Rightarrow> Suc (length (rest s)))"
    using main_iter_rest [OF t] by (cases "main_iter scan t") (simp_all add: x)
qed simp

lemma main_iter_line:
  "fgets MAX_CHAR_PER_LINE (rest s) = Some (l, r) \<Longrightarrow>
   main_iter scan s = (case line_step scan l s of Inl e \<Rightarrow> Inl e | Inr t \<Rightarrow> Inr (t\<lparr>rest := r\<rparr>))"
  by (simp add: main_iter_def line_step_def Let_def split: sum.splits)

lemma line_step_rest:
  "line_step scan l (s\<lparr>rest := x\<rparr>) = (case line_step scan l s of Inl e \<Rightarrow> Inl e | Inr t \<Rightarrow> Inr (t\<lparr>rest := x\<rparr>))"
  by (simp add: line_step_def Let_def split: sum.splits)

lemma run_lines_rest:
  "run_lines scan ls (s\<lparr>rest := x\<rparr>) = (case run_lines scan ls s of Inl e \<Rightarrow> Inl e | Inr t \<Rightarrow> Inr (t\<lparr>rest := x\<rparr>))"
proof (induction ls arbitrary: s)
  case Nil
  then show ?case by simp
next
  case (Cons l ls)
  then show ?case by (simp add: line_step_rest split: sum.splits)
qed

lemma main_read_loop_lines:
  "main_read_loop scan s = Some (run_lines scan (fgets_lines (rest s)) (s\<lparr>rest := []\<rparr>))"
proof (induction "length (rest s)" arbitrary: s rule: less_induct)
  case less
  show ?case
  proof (cases "rest s = []")
    case True
    then have "s\<lparr>rest := []\<rparr> = s" by simp
    with True show ?thesis
      by (simp add: main_read_loop_def while_option_unfold [of _ _ "Inr s"] fgets_lines.simps)
  next
    case False
    then obtain l r where f: "fgets MAX_CHAR_PER_LINE (rest s) = Some (l, r)"
      by (cases "fgets MAX_CHAR_PER_LINE (rest s)") auto
    have lt: "length r < length (rest s)" using fgets_Some [OF f] by (simp add: MAX_CHAR_PER_LINE_def)
    have unf: "main_read_loop scan s =
        while_option (\<lambda>x. case x of Inl _ \<Rightarrow> False | Inr s \<Rightarrow> rest s \<noteq> [])
          (\<lambda>x. case x of Inl e \<Rightarrow> Inl e | Inr s \<Rightarrow> main_iter scan s) (main_iter scan s)"
      using False by (simp add: main_read_loop_def while_option_unfold [of _ _ "Inr s"])
    show ?thesis
    proof (cases "line_step scan l s")
      case (Inl e)
      then show ?thesis
        using unf f by (simp add: main_iter_line fgets_lines.simps [of "rest s"] line_step_rest
            while_option_unfold [of _ _ "Inl e"])
    next
      case (Inr t)
      have "main_read_loop scan (t\<lparr>rest := r\<rparr>) =
          Some (run_lines scan (fgets_lines r) (t\<lparr>rest := []\<rparr>))"
        using less [of "t\<lparr>rest := r\<rparr>"] lt by simp
      then show ?thesis
        using unf f Inr by (simp add: main_iter_line fgets_lines.simps [of "rest s"] line_step_rest
            main_read_loop_def)
    qed
  qed
qed

lemma butlast_take_line:
  assumes "k \<le> line_len s"
  shows "CHR 0x0A \<notin> set (butlast (take k s))"
proof -
  let ?p = "length (takeWhile (\<lambda>c. c \<noteq> CHR 0x0A) s)"
  have k: "k \<le> length s" using assms line_len_le [of s] by simp
  have "k - 1 \<le> ?p" using assms by (simp add: line_len_def Let_def split: if_splits)
  then have "take (k - 1) s = take (k - 1) (takeWhile (\<lambda>c. c \<noteq> CHR 0x0A) s)"
    by (metis min.absorb1 takeWhile_eq_take take_take)
  then have "set (butlast (take k s)) \<subseteq> set (takeWhile (\<lambda>c. c \<noteq> CHR 0x0A) s)"
    using k by (metis butlast_take set_take_subset)
  then show ?thesis by (blast dest: set_takeWhileD)
qed


text \<open>
  The read loop sees the whole input and nothing else: the pieces \<open>fgets\<close> returns concatenate to the input; each is non-empty, has fewer than \<open>MAX_CHAR_PER_LINE\<close> characters and contains a newline only as its last character, so a line of 120 or more characters is read as several pieces.
\<close>

lemma fgets_lines_roundtrip:
  "concat (fgets_lines s) = s \<and>
   (\<forall>l \<in> set (fgets_lines s). l \<noteq> [] \<and> length l < MAX_CHAR_PER_LINE \<and> CHR 0x0A \<notin> set (butlast l))"
proof (induction "length s" arbitrary: s rule: less_induct)
  case less
  show ?case
  proof (cases "s = []")
    case True
    then have "fgets_lines s = []" by (subst fgets_lines.simps) simp
    with True show ?thesis by simp
  next
    case False
    then obtain l r where f: "fgets MAX_CHAR_PER_LINE s = Some (l, r)"
      by (cases "fgets MAX_CHAR_PER_LINE s") auto
    have two: "2 \<le> MAX_CHAR_PER_LINE" by (simp add: MAX_CHAR_PER_LINE_def)
    have F: "l @ r = s \<and> l \<noteq> [] \<and> length l \<le> MAX_CHAR_PER_LINE - 1 \<and> length r < length s"
      by (rule fgets_Some [OF f two])
    then have cat: "l @ r = s" and ne: "l \<noteq> []" and shorter: "length r < length s"
      and len': "length l \<le> MAX_CHAR_PER_LINE - 1" by blast+
    have len: "length l < MAX_CHAR_PER_LINE" using len' two by linarith
    have lt: "l = take (min (MAX_CHAR_PER_LINE - 1) (line_len s)) s" using fgets_Some_eq [OF f] by blast
    have nl: "CHR 0x0A \<notin> set (butlast l)"
      unfolding lt by (rule butlast_take_line) (rule min.cobounded2)
    have IH: "concat (fgets_lines r) = r \<and>
        (\<forall>l \<in> set (fgets_lines r). l \<noteq> [] \<and> length l < MAX_CHAR_PER_LINE \<and> CHR 0x0A \<notin> set (butlast l))"
      by (rule less [OF shorter])
    have eq: "fgets_lines s = l # fgets_lines r" using f by (subst fgets_lines.simps) simp
    have "concat (fgets_lines s) = s" unfolding eq using IH cat by (simp only: concat.simps)
    moreover have "\<forall>x \<in> set (fgets_lines s). x \<noteq> [] \<and> length x < MAX_CHAR_PER_LINE \<and> CHR 0x0A \<notin> set (butlast x)"
      unfolding eq using IH ne len nl by (simp only: list.set ball_simps) blast
    ultimately show ?thesis ..
  qed
qed

lemma fgets_lines_long_line:
  "concat (fgets_lines (replicate 130 (CHR ''a'') @ ''\<newline>'')) = replicate 130 (CHR ''a'') @ ''\<newline>'' \<and>
   fgets_lines (replicate 130 (CHR ''a'') @ ''\<newline>'') = [replicate 119 (CHR ''a''), replicate 11 (CHR ''a'') @ ''\<newline>'']"
proof -
  let ?s = "replicate 130 (CHR ''a'') @ ''\<newline>''"
  have tw: "takeWhile (\<lambda>c. c \<noteq> CHR 0x0A) (replicate n (CHR ''a'') @ ''\<newline>'') = replicate n (CHR ''a'')" for n
    by (subst takeWhile_append2) auto
  have f1: "fgets MAX_CHAR_PER_LINE ?s = Some (replicate 119 (CHR ''a''), replicate 11 (CHR ''a'') @ ''\<newline>'')"
    using tw by (simp add: fgets_def line_len_def MAX_CHAR_PER_LINE_def Let_def)
  have f2: "fgets MAX_CHAR_PER_LINE (replicate 11 (CHR ''a'') @ ''\<newline>'') = Some (replicate 11 (CHR ''a'') @ ''\<newline>'', [])"
    using tw by (simp add: fgets_def line_len_def MAX_CHAR_PER_LINE_def Let_def)
  have "fgets_lines ?s = [replicate 119 (CHR ''a''), replicate 11 (CHR ''a'') @ ''\<newline>'']"
    using f1 f2 by (simp add: fgets_lines.simps [of ?s] fgets_lines.simps [of "replicate 11 (CHR ''a'') @ ''\<newline>''"]
        fgets_lines.simps [of "[]"])
  with fgets_lines_roundtrip [of ?s] show ?thesis by blast
qed

subsection \<open>The program\<close>

lemma run_lines_scan_vars:
  assumes "scan_vars scan (vars s) ls = Inr vs"
  shows "run_lines scan ls s =
           Inr (s\<lparr>vars := last (vars s # vs), pst := main_loop (pst s) (map sample vs),
                  out_rows := out_rows s @ rows_of (pst s) vs\<rparr>)"
  using assms
proof (induction ls arbitrary: s vs)
  case Nil
  then show ?case by simp
next
  case (Cons l ls)
  then obtain v' vs' where a: "sscanf_assign 0 (scan l) (vars s) = Inr v'"
    and r: "scan_vars scan v' ls = Inr vs'" and vs: "vs = v' # vs'"
    by (auto split: sum.splits)
  let ?s1 = "s\<lparr>vars := v', pst := main_step (pst s) (sample v'),
               out_rows := out_rows s @ [data_line v' (main_step (pst s) (sample v'))]\<rparr>"
  have "line_step scan l s = Inr ?s1" by (simp add: line_step_def a Let_def)
  with Cons.IH [of ?s1 vs'] r vs show ?case by (simp add: Let_def)
qed

lemma run_lines_scan_fault:
  "scan_vars scan (vars s) ls = Inl e \<Longrightarrow> run_lines scan ls s = Inl e"
proof (induction ls arbitrary: s)
  case Nil
  then show ?case by simp
next
  case (Cons l ls)
  show ?case
  proof (cases "sscanf_assign 0 (scan l) (vars s)")
    case (Inl e')
    with Cons.prems show ?thesis by (simp add: line_step_def)
  next
    case (Inr v')
    with Cons.prems have "scan_vars scan v' ls = Inl e" by (simp split: sum.splits)
    with Cons.IH Inr show ?thesis by (simp add: line_step_def Let_def)
  qed
qed

lemma data_line_label_ok: "row_label_ok (data_line v ps)"
  by (cases "step_type (algo_out ps)") (simp_all add: data_line_def label_table_def)

lemma line_step_inv: "line_step scan l s = Inr s' \<Longrightarrow> rows_inv s \<Longrightarrow> rows_inv s'"
  by (auto simp: line_step_def Let_def rows_inv_def main_step_count_inv data_line_label_ok split: sum.splits)

lemma run_lines_inv: "run_lines scan ls s = Inr s' \<Longrightarrow> rows_inv s \<Longrightarrow> rows_inv s'"
proof (induction ls arbitrary: s)
  case Nil
  then show ?case by simp
next
  case (Cons l ls)
  then show ?case by (auto intro: line_step_inv split: sum.splits)
qed

lemma loop_init_inv: "rows_inv ((loop_init body)\<lparr>rest := []\<rparr>)"
  by (simp add: rows_inv_def loop_init_def count_inv_init)

lemma main_prog_setup:
  assumes "length argv = 3" and "files w (argv ! 1) = Some content" and "writable w (argv ! 2)"
    and "skip_lines 2 content = Some body"
  shows "main_prog scan argv w =
           Some (case run_lines scan (fgets_lines body) ((loop_init body)\<lparr>rest := []\<rparr>) of
                   Inl e \<Rightarrow> Inl e | Inr s \<Rightarrow> Inr (main_finish s))"
  using assms by (simp add: main_prog_def main_read_loop_lines loop_init_def)

lemma main_prog_cases:
  assumes "main_prog scan argv w = Some (Inr r)"
  shows "(setup_fails argv w \<and> exit_code r = 1 \<and> length (stdout r) = 1 \<and> out_file r \<in> {None, Some []}) \<or>
         (\<not> setup_fails argv w \<and> (\<exists>s. rows_inv s \<and> r = main_finish s))"
proof (cases "setup_fails argv w")
  case True
  with assms show ?thesis
    by (auto simp: main_prog_def setup_fails_def split: option.splits if_splits)
next
  case False
  then obtain content body where a: "length argv = 3" "files w (argv ! 1) = Some content"
    "writable w (argv ! 2)" "skip_lines 2 content = Some body"
    by (auto simp: setup_fails_def)
  note M = main_prog_setup [OF a, of scan]
  from assms M obtain s where "run_lines scan (fgets_lines body) ((loop_init body)\<lparr>rest := []\<rparr>) = Inr s"
    and "r = main_finish s" by (auto split: sum.splits)
  with run_lines_inv loop_init_inv False show ?thesis by blast
qed

text \<open>The counts printed along the rows never decrease and stay within the rows read.\<close>

lemma rows_of_counts:
  "count_bound ps k \<Longrightarrow> k + length vs < 2 ^ 31 \<Longrightarrow>
   sorted (int (unat (step_count (algo_out ps))) # map row_count (rows_of ps vs)) \<and>
   (\<forall>c\<in>set (map row_count (rows_of ps vs)). c \<le> int (k + length vs))"
proof (induction vs arbitrary: ps k)
  case Nil
  then show ?case by simp
next
  case (Cons v vs)
  let ?ps' = "main_step ps (sample v)"
  from Cons.prems(2) have k: "Suc k < 2 ^ 32" by simp
  from main_step_bound [OF Cons.prems(1) k] have B: "count_bound ?ps' (Suc k)" "counters_le ps ?ps'" by simp_all
  from B(1) have u: "unat (step_count (algo_out ?ps')) \<le> Suc k" by (simp add: count_bound_def)
  with Cons.prems(2) have "unat (step_count (algo_out ?ps')) < 2 ^ 31" by simp
  then have s: "sint (step_count (algo_out ?ps')) = int (unat (step_count (algo_out ?ps')))" by (rule sint_small)
  from Cons.IH [OF B(1)] Cons.prems(2) have IH:
    "sorted (int (unat (step_count (algo_out ?ps'))) # map row_count (rows_of ?ps' vs))"
    "\<forall>c\<in>set (map row_count (rows_of ?ps' vs)). c \<le> int (Suc k + length vs)" by simp_all
  from B(2) have m: "int (unat (step_count (algo_out ps))) \<le> int (unat (step_count (algo_out ?ps')))"
    by (simp add: counters_le_def)
  from IH(1) m have "\<forall>x\<in>set (map row_count (rows_of ?ps' vs)). int (unat (step_count (algo_out ps))) \<le> x"
    by (auto intro: order_trans)
  with IH u s m show ?case by (simp add: data_line_def Let_def)
qed

lemma main_prog_rows:
  assumes "main_prog scan argv w = Some (Inr r)" and "out_file r = Some (HeaderLine # rows)"
  shows "\<exists>vs. rows = rows_of pedo_init vs"
proof (cases "setup_fails argv w")
  case True
  with main_prog_cases [OF assms(1)] assms(2) show ?thesis by auto
next
  case False
  then obtain content body where a: "length argv = 3" "files w (argv ! 1) = Some content"
    "writable w (argv ! 2)" "skip_lines 2 content = Some body"
    by (auto simp: setup_fails_def)
  show ?thesis
  proof (cases "scan_vars scan csv_vars_init (fgets_lines body)")
    case (Inl e)
    then have "run_lines scan (fgets_lines body) ((loop_init body)\<lparr>rest := []\<rparr>) = Inl e"
      by (intro run_lines_scan_fault) (simp add: loop_init_def)
    with assms(1) main_prog_setup [OF a, of scan] show ?thesis by simp
  next
    case (Inr vs)
    then have "run_lines scan (fgets_lines body) ((loop_init body)\<lparr>rest := []\<rparr>) =
        Inr ((loop_init body)\<lparr>rest := [], vars := last (csv_vars_init # vs), pst := main_loop pedo_init (map sample vs),
                out_rows := rows_of pedo_init vs\<rparr>)"
      by (subst run_lines_scan_vars) (simp_all add: loop_init_def)
    with assms main_prog_setup [OF a, of scan] show ?thesis by (auto simp: main_finish_def loop_init_def)
  qed
qed

lemma demo_skip: "skip_lines 2 demo_file = Some (''r1\<newline>'')"
  by (simp add: demo_file_def fgets_def line_len_def MAX_CHAR_PER_LINE_def numeral_2_eq_2)

lemma demo_lines: "fgets_lines (''r1\<newline>'') = [''r1\<newline>'']"
  by (simp add: fgets_lines.simps [of "''r1\<newline>''"] fgets_lines.simps [of "[]"] fgets_def line_len_def
      MAX_CHAR_PER_LINE_def)

lemma demo_run:
  "main_read_loop demo_scan (loop_init (''r1\<newline>'')) =
     Some (Inr \<lparr>rest = [], vars = \<lparr>rec_id = 1, sen_id = 7, date = ''d'', time = ''t'',
         sample = \<lparr>arx = 0, ary = 9.81, arz = 0, grx = 0, gry = 0, grz = 0\<rparr>\<rparr>,
       pst = main_step pedo_init \<lparr>arx = 0, ary = 9.81, arz = 0, grx = 0, gry = 0, grz = 0\<rparr>,
       out_rows = [DataLine \<lparr>rec_id = 1, sen_id = 7, date = ''d'', time = ''t'',
         sample = \<lparr>arx = 0, ary = 9.81, arz = 0, grx = 0, gry = 0, grz = 0\<rparr>\<rparr> (1 / 104) 0 ''STATIONARY'' 0]\<rparr>)"
proof -
  have st: "step_type (algo_out (main_step pedo_init \<lparr>arx = 0, ary = 9.81, arz = 0, grx = 0, gry = 0, grz = 0\<rparr>)) = STATIC"
    "step_count (algo_out (main_step pedo_init \<lparr>arx = 0, ary = 9.81, arz = 0, grx = 0, gry = 0, grz = 0\<rparr>)) = 0"
    "main_timestamp (main_step pedo_init \<lparr>arx = 0, ary = 9.81, arz = 0, grx = 0, gry = 0, grz = 0\<rparr>) = 1 / 104"
    by (simp_all add: main_step_def Let_def split_def step_algo_preproc_def pedo_init_def preproc_init_def
        algo_out_init_def pedo_consts)
  show ?thesis
    using st by (simp add: main_read_loop_def while_option_unfold [of _ _ "Inr (loop_init _)"] loop_init_def
        main_iter_def fgets_def line_len_def MAX_CHAR_PER_LINE_def demo_scan_def csv_vars_init_def
        data_line_def Let_def while_option_unfold [of _ _ "Inr _"])
qed
lemma demo_main:
  "main_prog demo_scan [''pedometer'', ''in.csv'', ''out.csv''] demo_world = Some (Inr demo_result)"
  by (simp add: main_prog_def demo_world_def demo_skip demo_run main_finish_def demo_result_def)

text \<open>
  C5. End to end: when both files open, the header is read and every data line scans without a fault, \<open>main\<close> exits with 0, writes the header row and one row per data line, each with the variables as \<open>sscanf\<close> left them and the timestamp, step count and label after that sample, and prints the summary of the driver's final state, where the driver is \<open>main_loop\<close> of \<open>Pedometer\<close> run on the scanned samples.
\<close>

theorem main_prog_output:
  assumes "length argv = 3" and "files w (argv ! 1) = Some content" and "writable w (argv ! 2)"
    and "skip_lines 2 content = Some body" and "scan_vars scan csv_vars_init (fgets_lines body) = Inr vs"
  shows "main_prog scan argv w =
           Some (Inr \<lparr>exit_code = 0, stdout = summary_msgs (main_loop pedo_init (map sample vs)),
                      out_file = Some (HeaderLine # rows_of pedo_init vs)\<rparr>)"
proof -
  have "scan_vars scan (vars ((loop_init body)\<lparr>rest := []\<rparr>)) (fgets_lines body) = Inr vs"
    using assms(5) by (simp add: loop_init_def)
  from run_lines_scan_vars [OF this] show ?thesis
    by (simp add: main_prog_setup [OF assms(1-4)] main_finish_def loop_init_def)
qed

theorem main_prog_output_witness:
  "map_option (case_sum (\<lambda>_. 2) exit_code)
     (main_prog demo_scan [''pedometer'', ''in.csv'', ''out.csv''] demo_world) = Some 0"
  using main_prog_output [of "[''pedometer'', ''in.csv'', ''out.csv'']" demo_world demo_file "''r1\<newline>''"
      demo_scan "[\<lparr>rec_id = 1, sen_id = 7, date = ''d'', time = ''t'',
         sample = \<lparr>arx = 0, ary = 9.81, arz = 0, grx = 0, gry = 0, grz = 0\<rparr>\<rparr>]"]
  by (simp add: demo_world_def demo_skip demo_lines csv_vars_init_def demo_scan_def)

text \<open>
  \<open>main\<close> returns on every input (the model is total): each pass of the read loop consumes at least one character of the input stream.
\<close>

lemma main_prog_terminates: "\<exists>r. main_prog scan argv w = Some r"
proof -
  have "\<exists>r. main_read_loop scan (loop_init body) = Some r" for body
    by (rule main_read_loop_terminates)
  then show ?thesis by (auto simp: main_prog_def split: option.split)
qed

text \<open>
  C21. Error exits: \<open>main\<close> exits with a nonzero status exactly when the arguments are not two, the input cannot be opened, the output cannot be opened, or the input has fewer than two lines; it then exits with 1, prints one message and writes no row (the output file exists and is empty when only the header is missing). In that last case the message names \<open>argv[2]\<close>, the output file, not the input file.
\<close>

theorem main_prog_error_exits:
  assumes "main_prog scan argv w = Some (Inr r)"
  shows "(exit_code r \<noteq> 0 \<longleftrightarrow> setup_fails argv w) \<and>
         (setup_fails argv w \<longrightarrow> exit_code r = 1 \<and> length (stdout r) = 1 \<and> out_file r \<in> {None, Some []}) \<and>
         (length argv = 3 \<and> files w (argv ! 1) \<noteq> None \<and> writable w (argv ! 2) \<and>
          skip_lines 2 (the (files w (argv ! 1))) = None \<longrightarrow>
          stdout r = [CannotReadHeader (argv ! 2)] \<and> out_file r = Some [])"
proof -
  have nz: "exit_code (main_finish s) = 0" for s by (simp add: main_finish_def)
  have hdr: "stdout r = [CannotReadHeader (argv ! 2)] \<and> out_file r = Some []"
    if "length argv = 3" "files w (argv ! 1) \<noteq> None" "writable w (argv ! 2)"
       "skip_lines 2 (the (files w (argv ! 1))) = None"
    using assms that by (auto simp: main_prog_def)
  from main_prog_cases [OF assms] nz hdr show ?thesis by auto
qed

theorem main_prog_error_exits_witness:
  "setup_fails [''pedometer'', ''in.csv'', ''out.csv'']
     \<lparr>files = (\<lambda>n. if n = ''in.csv'' then Some ''h1'' else None), writable = (\<lambda>n. True)\<rparr>"
proof -
  let ?w = "\<lparr>files = (\<lambda>n. if n = ''in.csv'' then Some ''h1'' else None), writable = (\<lambda>n. True)\<rparr>"
  let ?r = "\<lparr>exit_code = 1, stdout = [CannotReadHeader ''out.csv''], out_file = Some []\<rparr>"
  have "main_prog demo_scan [''pedometer'', ''in.csv'', ''out.csv''] ?w = Some (Inr ?r)"
    by (simp add: main_prog_def fgets_def line_len_def MAX_CHAR_PER_LINE_def numeral_2_eq_2)
  from main_prog_error_exits [OF this] show ?thesis by simp
qed

text \<open>
  C26. Every row \<open>main\<close> writes carries one of the four labels of the specification with its code: STATIONARY 0, WALKING 1, HOPPING 2, RUNNING 3 (the label is never left unset).
\<close>

theorem main_prog_labels:
  assumes "main_prog scan argv w = Some (Inr r)" and "out_file r = Some ls"
  shows "\<forall>x \<in> set ls. row_label_ok x"
  using main_prog_cases [OF assms(1)] assms(2)
  by (auto simp: main_finish_def rows_inv_def list_all_iff)

theorem main_prog_labels_witness:
  "list_all row_label_ok (the (out_file (demo_result)))"
  using main_prog_labels [OF demo_main, of "the (out_file demo_result)"]
  by (simp add: demo_result_def list_all_iff)

end
