(* ===== verification/Scanf.thy ===== *)
theory Scanf
  imports Main_IO
begin

text \<open>
  The call \<open>sscanf(line_buff, "%d, %d, %[^,], %[^,], %f, %f, %f, %f, %f, %f\\n", ...)\<close> of
  line 162, which \<open>Main_IO\<close> takes as a parameter \<open>scan\<close>, modelled from the C standard's
  description of \<open>sscanf\<close>: the format string is parsed into directives, and the directives
  are run on the line. Only what this format uses is modelled: white space, ordinary
  characters, \<open>%d\<close>, \<open>%f\<close> with decimal input (not \<open>inf\<close>, \<open>nan\<close> or hexadecimal) and
  \<open>%[^c]\<close>. Numbers are exact (\<open>float\<close> is \<open>real\<close>). With \<open>csv_scan\<close> for
  \<open>scan\<close>, \<open>main_prog csv_scan\<close> is \<open>main\<close> with no parameter left.
  The last group shows the overflow of the date and time arrays on an over-long field.
\<close>

text \<open>The character classes of \<open><ctype.h>\<close> that \<open>sscanf\<close> uses: \<open>isspace\<close> and \<open>isdigit\<close>.\<close>

definition is_space :: "char \<Rightarrow> bool" where
  "is_space c \<longleftrightarrow> of_char c = (32::nat) \<or> ((9::nat) \<le> of_char c \<and> of_char c \<le> (13::nat))"

definition is_digit :: "char \<Rightarrow> bool" where
  "is_digit c \<longleftrightarrow> (48::nat) \<le> of_char c \<and> of_char c \<le> (57::nat)"

text \<open>The value of a run of decimal digits.\<close>

definition digit_acc :: "nat \<Rightarrow> char \<Rightarrow> nat" where
  "digit_acc n c = 10 * n + (of_char c - 48)"

definition digits_val :: "string \<Rightarrow> nat" where
  "digits_val ds = foldl digit_acc 0 ds"

text \<open>
  The directives of a format string (C11 7.21.6.2): white space, an ordinary character,
  and the conversions \<open>%d\<close>, \<open>%f\<close> and \<open>%[^c]\<close> that line 162 uses.
\<close>

datatype directive = DSpace | DLit char | DInt | DFlt | DScanNot char

fun parse_format :: "string \<Rightarrow> directive list" where
  "parse_format [] = []"
| "parse_format (c # r) =
     (if c = CHR ''%'' \<and> take 1 r = ''d'' then DInt # parse_format (drop 1 r)
      else if c = CHR ''%'' \<and> take 1 r = ''f'' then DFlt # parse_format (drop 1 r)
      else if c = CHR ''%'' \<and> take 2 r = ''[^'' \<and> length r \<ge> 4 \<and> r ! 3 = CHR '']''
        then DScanNot (r ! 2) # parse_format (drop 4 r)
      else (if is_space c then DSpace else DLit c) # parse_format r)"

text \<open>
  The input items of \<open>%d\<close> and \<open>%f\<close>: the longest prefix that is, or begins, a decimal
  integer or a decimal floating constant; when that prefix is not itself one (a lone sign, a
  lone point, an exponent without digits) the conversion fails.
\<close>

definition lex_sign :: "string \<Rightarrow> int \<times> string" where
  "lex_sign s = (case s of c # r \<Rightarrow> if c = CHR ''-'' then (-1, r) else if c = CHR ''+'' then (1, r) else (1, s)
                          | [] \<Rightarrow> (1, s))"

definition lex_int :: "string \<Rightarrow> (int \<times> string) option" where
  "lex_int s =
     (let (sg, r) = lex_sign s; ds = takeWhile is_digit r
      in if ds = [] then None else Some (sg * int (digits_val ds), drop (length ds) r))"

definition lex_float :: "string \<Rightarrow> (float \<times> string) option" where
  "lex_float s =
     (let (sg, r) = lex_sign s;
          d1 = takeWhile is_digit r; r1 = drop (length d1) r;
          (d2, r2) = (case r1 of c # r' \<Rightarrow> if c = CHR ''.'' then (takeWhile is_digit r', drop (length (takeWhile is_digit r')) r')
                                           else ([], r1)
                               | [] \<Rightarrow> ([], r1));
          m = of_int sg * real (digits_val (d1 @ d2)) / 10 ^ length d2
      in if d1 @ d2 = [] then None
         else case r2 of
           c # r' \<Rightarrow>
             if c = CHR ''e'' \<or> c = CHR ''E'' then
               (let (esg, r3) = lex_sign r'; d3 = takeWhile is_digit r3; e = digits_val d3
                in if d3 = [] then None
                   else Some (if esg < 0 then m / 10 ^ e else m * 10 ^ e, drop (length d3) r3))
             else Some (m, r2)
         | [] \<Rightarrow> Some (m, r2))"

text \<open>
  \<open>sscanf\<close>: the directives applied in order; a white-space directive skips any white
  space, an ordinary character must match the next input character, \<open>%d\<close> and \<open>%f\<close> skip
  white space before their item, \<open>%[^c]\<close> takes the longest non-empty run of characters
  other than \<open>c\<close>. The first directive that fails ends the scan; the conversions done so far
  are the result, which \<open>sscanf_assign\<close> stores in order.
\<close>

fun vsscanf :: "directive list \<Rightarrow> string \<Rightarrow> conv list" where
  "vsscanf [] s = []"
| "vsscanf (DSpace # ds) s = vsscanf ds (dropWhile is_space s)"
| "vsscanf (DLit c # ds) s = (case s of x # r \<Rightarrow> if x = c then vsscanf ds r else [] | [] \<Rightarrow> [])"
| "vsscanf (DInt # ds) s =
     (case lex_int (dropWhile is_space s) of None \<Rightarrow> [] | Some (n, r) \<Rightarrow> CInt n # vsscanf ds r)"
| "vsscanf (DFlt # ds) s =
     (case lex_float (dropWhile is_space s) of None \<Rightarrow> [] | Some (x, r) \<Rightarrow> CFlt x # vsscanf ds r)"
| "vsscanf (DScanNot c # ds) s =
     (let w = takeWhile (\<lambda>x. x \<noteq> c) s in if w = [] then [] else CStr w # vsscanf ds (drop (length w) s))"

text \<open>The format of line 162 and the scanner \<open>main\<close> runs on every line.\<close>

definition csv_format :: string where
  "csv_format = ''%d, %d, %[^,], %[^,], %f, %f, %f, %f, %f, %f\<newline>''"

definition csv_scan :: "string \<Rightarrow> conv list" where
  "csv_scan l = vsscanf (parse_format csv_format) l"

text \<open>The CSV input format of the specification, written out for the round trip.\<close>

text \<open>
  The CSV input format of the specification (section 6), written out for the round trip:
  integers in decimal, numbers in fixed point with \<open>k\<close> digits after the point
  (the pair \<open>(m, k)\<close> stands for \<open>m / 10^k\<close>).
\<close>

fun show_nat :: "nat \<Rightarrow> string" where
  "show_nat n = (if n < 10 then [char_of (48 + n)] else show_nat (n div 10) @ [char_of (48 + n mod 10)])"

declare show_nat.simps [simp del]

definition show_int :: "int \<Rightarrow> string" where
  "show_int i = (if i < 0 then ''-'' else []) @ show_nat (nat \<bar>i\<bar>)"

definition pad_zeros :: "nat \<Rightarrow> string \<Rightarrow> string" where
  "pad_zeros k s = replicate (k - length s) (CHR ''0'') @ s"

definition fixed_str :: "bool \<Rightarrow> nat \<Rightarrow> nat \<Rightarrow> string" where
  "fixed_str neg n k =
     (if neg then ''-'' else []) @ show_nat (n div 10 ^ k) @ ''.'' @ pad_zeros k (show_nat (n mod 10 ^ k))"

definition dec_str :: "int \<times> nat \<Rightarrow> string" where
  "dec_str mk = (case mk of (m, k) \<Rightarrow> fixed_str (m < 0) (nat \<bar>m\<bar>) k)"

fun float_fields :: "(int \<times> nat) list \<Rightarrow> string" where
  "float_fields [] = []"
| "float_fields [x] = dec_str x"
| "float_fields (x # xs) = dec_str x @ '', '' @ float_fields xs"

definition csv_line :: "int \<Rightarrow> int \<Rightarrow> string \<Rightarrow> string \<Rightarrow> (int \<times> nat) list \<Rightarrow> string" where
  "csv_line r s d t xs = show_int r @ '', '' @ show_int s @ '', '' @ d @ '', '' @ t @ '', '' @ float_fields xs @ ''\<newline>''"

definition fixed_val :: "int \<times> nat \<Rightarrow> float" where
  "fixed_val mk = (case mk of (m, k) \<Rightarrow> of_int m / 10 ^ k)"

text \<open>The directives of the six \<open>%f\<close> fields and the final newline.\<close>

fun flt_dirs :: "nat \<Rightarrow> directive list" where
  "flt_dirs 0 = [DFlt, DSpace]"
| "flt_dirs (Suc n) = DFlt # DLit CHR '','' # DSpace # flt_dirs n"

text \<open>An input file whose only data line has a date field of 13 characters.\<close>

definition long_date_file :: string where
  "long_date_file = ''h1\<newline>h2\<newline>'' @ csv_line 1 2 ''2017-01-01 10'' ''00:00'' (replicate 6 (0, 1))"

subsection \<open>Digits\<close>

lemma foldl_digit_acc: "foldl digit_acc x b = x * 10 ^ length b + foldl digit_acc 0 b"
proof (induction b arbitrary: x)
  case Nil
  then show ?case by simp
next
  case (Cons c b)
  have "foldl digit_acc x (c # b) = (10 * x + (of_char c - 48)) * 10 ^ length b + foldl digit_acc 0 b"
    using Cons.IH [of "digit_acc x c"] by (simp add: digit_acc_def [of x c])
  moreover have "foldl digit_acc 0 (c # b) = (of_char c - 48) * 10 ^ length b + foldl digit_acc 0 b"
    using Cons.IH [of "digit_acc 0 c"] by (simp add: digit_acc_def [of 0 c])
  ultimately show ?case by (simp add: algebra_simps)
qed

lemma digits_val_append: "digits_val (a @ b) = digits_val a * 10 ^ length b + digits_val b"
  unfolding digits_val_def by (simp add: foldl_digit_acc [of "foldl digit_acc 0 a"])

lemma of_char_digit: "n < 10 \<Longrightarrow> of_char (char_of (48 + n) :: char) = (48 + n :: nat)"
  by (simp add: of_char_of)

lemma show_nat_digits: "show_nat n \<noteq> [] \<and> (\<forall>c\<in>set (show_nat n). is_digit c)"
proof (induction n rule: show_nat.induct)
  case (1 n)
  then show ?case unfolding show_nat.simps [of n] by (auto simp: is_digit_def of_char_digit)
qed

lemma digits_val_show_nat [simp]: "digits_val (show_nat n) = n"
proof (induction n rule: show_nat.induct)
  case (1 n)
  then show ?case unfolding show_nat.simps [of n]
    by (simp add: digits_val_append digits_val_def digit_acc_def of_char_digit)
qed

lemma length_show_nat: "n < 10 ^ k \<Longrightarrow> 0 < k \<Longrightarrow> length (show_nat n) \<le> k"
proof (induction n arbitrary: k rule: show_nat.induct)
  case (1 n)
  show ?case
  proof (cases "n < 10")
    case True
    then have "length (show_nat n) = 1" unfolding show_nat.simps [of n] by simp
    with 1(3) show ?thesis by linarith
  next
    case False
    from 1(3) obtain k' where k: "k = Suc k'" by (cases k) auto
    have "k' \<noteq> 0"
    proof
      assume "k' = 0"
      with 1(2) k have "n < 10" by simp
      with False show False by simp
    qed
    from 1(2) k have "n div 10 < 10 ^ k'" by (simp add: div_less_iff_less_mult)
    with 1(1) [OF False] \<open>k' \<noteq> 0\<close> have "length (show_nat (n div 10)) \<le> k'" by simp
    with False k show ?thesis unfolding show_nat.simps [of n] by simp
  qed
qed

lemma digits_val_zero_Cons: "digits_val (CHR ''0'' # s) = digits_val s"
  by (simp add: digits_val_def digit_acc_def)

lemma digits_val_zeros [simp]: "digits_val (replicate z (CHR ''0'') @ s) = digits_val s"
  by (induction z) (simp_all add: digits_val_zero_Cons)

subsection \<open>The lexers on what the printers write\<close>

lemma is_digit_simps [simp]:
  "\<not> is_digit CHR ''.''" "\<not> is_digit CHR '',''" "\<not> is_digit CHR ''-''" "\<not> is_digit CHR ''+''"
  "\<not> is_digit CHR '' ''" "\<not> is_digit CHR 0x0A" "is_digit CHR ''0''"
  by (simp_all add: is_digit_def)

lemma takeWhile_digits:
  assumes "\<forall>c\<in>set ds. is_digit c" and "r = [] \<or> \<not> is_digit (hd r)"
  shows "takeWhile is_digit (ds @ r) = ds"
  using assms by (cases r) (simp_all add: takeWhile_append2)

lemma lex_sign_digit: "s \<noteq> [] \<Longrightarrow> is_digit (hd s) \<Longrightarrow> lex_sign s = (1, s)"
  by (cases s) (auto simp: lex_sign_def)

lemma show_nat_hd: "is_digit (hd (show_nat n @ r))"
  using show_nat_digits [of n] by (cases "show_nat n") auto

lemma lex_int_show_int:
  assumes "r = [] \<or> \<not> is_digit (hd r)"
  shows "lex_int (show_int i @ r) = Some (i, r)"
proof -
  let ?ds = "show_nat (nat \<bar>i\<bar>)"
  have D: "?ds \<noteq> []" "\<forall>c\<in>set ?ds. is_digit c" using show_nat_digits by blast+
  have T: "takeWhile is_digit (?ds @ r) = ?ds" using takeWhile_digits [OF D(2) assms] .
  have S: "lex_sign (show_int i @ r) = (if i < 0 then -1 else 1, ?ds @ r)"
  proof (cases "i < 0")
    case True
    then show ?thesis by (simp add: show_int_def lex_sign_def)
  next
    case False
    then show ?thesis using lex_sign_digit [of "?ds @ r"] D(1) show_nat_hd [of "nat \<bar>i\<bar>" r]
      by (simp add: show_int_def)
  qed
  show ?thesis using D(1) by (simp add: lex_int_def S T)
qed

lemma lex_float_fixed:
  assumes S: "lex_sign s = (sg, d1 @ CHR ''.'' # d2 @ r)"
    and D: "\<forall>c\<in>set d1. is_digit c" "d1 \<noteq> []" "\<forall>c\<in>set d2. is_digit c"
    and R: "r = [] \<or> (\<not> is_digit (hd r) \<and> hd r \<noteq> CHR ''e'' \<and> hd r \<noteq> CHR ''E'')"
  shows "lex_float s = Some (of_int sg * real (digits_val (d1 @ d2)) / 10 ^ length d2, r)"
proof -
  have T1: "takeWhile is_digit (d1 @ CHR ''.'' # d2 @ r) = d1"
    using takeWhile_digits [of d1 "CHR ''.'' # d2 @ r"] D(1) by simp
  have T2: "takeWhile is_digit (d2 @ r) = d2"
    using takeWhile_digits [of d2 r] D(3) R by auto
  have U: "drop (length d1) (d1 @ CHR ''.'' # d2 @ r) = CHR ''.'' # d2 @ r" "drop (length d2) (d2 @ r) = r"
    by simp_all
  have "lex_float s =
     (if d1 @ d2 = [] then None
      else case r of
        c # r' \<Rightarrow>
          if c = CHR ''e'' \<or> c = CHR ''E'' then
            (let (esg, r3) = lex_sign r'; d3 = takeWhile is_digit r3; e = digits_val d3
             in if d3 = [] then None
                else Some (if esg < 0 then of_int sg * real (digits_val (d1 @ d2)) / 10 ^ length d2 / 10 ^ e
                           else of_int sg * real (digits_val (d1 @ d2)) / 10 ^ length d2 * 10 ^ e, drop (length d3) r3))
          else Some (of_int sg * real (digits_val (d1 @ d2)) / 10 ^ length d2, r)
      | [] \<Rightarrow> Some (of_int sg * real (digits_val (d1 @ d2)) / 10 ^ length d2, r))"
    unfolding lex_float_def Let_def S split_conv T1 U list.case if_True T2
    by (simp only: simp_thms if_True prod.case)
  then show ?thesis using R D(2) by (cases r) auto
qed

lemma lex_float_fixed_str:
  assumes k: "0 < k" and R: "r = [] \<or> (\<not> is_digit (hd r) \<and> hd r \<noteq> CHR ''e'' \<and> hd r \<noteq> CHR ''E'')"
  shows "lex_float (fixed_str neg n k @ r) = Some ((if neg then -1 else 1) * real n / 10 ^ k, r)"
proof -
  define d1 where "d1 = show_nat (n div 10 ^ k)"
  define d2 where "d2 = pad_zeros k (show_nat (n mod 10 ^ k))"
  have "length (show_nat (n mod 10 ^ k)) \<le> k" using k by (intro length_show_nat) simp_all
  then have len2: "length d2 = k" by (simp add: d2_def pad_zeros_def)
  have D1: "\<forall>c\<in>set d1. is_digit c" "d1 \<noteq> []" using show_nat_digits by (simp_all add: d1_def)
  have D2: "\<forall>c\<in>set d2. is_digit c" using show_nat_digits by (auto simp: d2_def pad_zeros_def)
  have V: "digits_val (d1 @ d2) = n"
    by (simp add: digits_val_append len2) (simp add: d1_def d2_def pad_zeros_def div_mult_mod_eq)
  have S: "lex_sign (fixed_str neg n k @ r) = (if neg then -1 else 1, d1 @ CHR ''.'' # d2 @ r)"
  proof (cases neg)
    case True
    then show ?thesis by (simp add: fixed_str_def lex_sign_def d1_def d2_def)
  next
    case False
    then show ?thesis using lex_sign_digit [of "d1 @ CHR ''.'' # d2 @ r"] D1(2) show_nat_hd [of "n div 10 ^ k"]
      by (simp add: fixed_str_def d1_def d2_def)
  qed
  from lex_float_fixed [OF S D1 D2 R] V len2 show ?thesis by simp
qed

lemma lex_float_dec_str:
  assumes k: "0 < k" and R: "r = [] \<or> (\<not> is_digit (hd r) \<and> hd r \<noteq> CHR ''e'' \<and> hd r \<noteq> CHR ''E'')"
  shows "lex_float (dec_str (m, k) @ r) = Some (of_int m / 10 ^ k, r)"
proof -
  have "(if m < 0 then -1 else 1) * real (nat \<bar>m\<bar>) = (of_int m :: real)" by simp
  with lex_float_fixed_str [OF k R, of "m < 0" "nat \<bar>m\<bar>"] show ?thesis
    by (simp add: dec_str_def)
qed

subsection \<open>The scanner on a whole line\<close>

lemma dropWhile_space_id: "s \<noteq> [] \<Longrightarrow> \<not> is_space (hd s) \<Longrightarrow> dropWhile is_space s = s"
  by (cases s) auto

lemma digit_not_space: "is_digit c \<Longrightarrow> \<not> is_space c"
  by (simp add: is_digit_def is_space_def)

lemma fixed_str_start: "fixed_str neg n k @ r \<noteq> [] \<and> \<not> is_space (hd (fixed_str neg n k @ r))"
  using show_nat_hd digit_not_space by (simp add: fixed_str_def is_space_def)

lemma dec_str_start: "dec_str mk @ r \<noteq> [] \<and> \<not> is_space (hd (dec_str mk @ r))"
  using fixed_str_start by (cases mk) (simp add: dec_str_def)

lemma vsscanf_flt:
  "0 < k \<Longrightarrow> r = [] \<or> (\<not> is_digit (hd r) \<and> hd r \<noteq> CHR ''e'' \<and> hd r \<noteq> CHR ''E'') \<Longrightarrow>
   vsscanf (DFlt # ds) (dec_str (m, k) @ r) = CFlt (of_int m / 10 ^ k) # vsscanf ds r"
  using dec_str_start [of "(m, k)" r] by (simp add: dropWhile_space_id lex_float_dec_str)

lemma takeWhile_upto: "c \<notin> set w \<Longrightarrow> takeWhile (\<lambda>x. x \<noteq> c) (w @ c # r) = w"
  by (induction w) auto

lemma float_fields_Cons: "float_fields (x # xs) = dec_str x @ (if xs = [] then [] else '', '' @ float_fields xs)"
  by (cases xs) auto

lemma vsscanf_floats:
  "length xs = Suc n \<Longrightarrow> \<forall>(m, k)\<in>set xs. 0 < k \<Longrightarrow>
   vsscanf (flt_dirs n) (float_fields xs @ ''\<newline>'') = map (CFlt \<circ> fixed_val) xs"
proof (induction n arbitrary: xs)
  case 0
  then obtain m k where "xs = [(m, k)]" "0 < k" by (cases xs) auto
  then show ?case using vsscanf_flt [where k = k and r = "''\<newline>''" and m = m and ds = "[DSpace]"]
    by (simp add: is_space_def fixed_val_def)
next
  case (Suc n)
  then obtain m k y ys where xs: "xs = (m, k) # y # ys" "0 < k" by (cases xs; cases "tl xs") auto
  have "vsscanf (flt_dirs (Suc n)) (float_fields xs @ ''\<newline>'') =
        CFlt (of_int m / 10 ^ k) # vsscanf (flt_dirs n) (dropWhile is_space (float_fields (y # ys) @ ''\<newline>''))"
    using vsscanf_flt [where k = k and r = "'', '' @ float_fields (y # ys) @ ''\<newline>''" and m = m] xs by (simp add: is_space_def)
  also have "dropWhile is_space (float_fields (y # ys) @ ''\<newline>'') = float_fields (y # ys) @ ''\<newline>''"
    using dec_str_start [of y] by (simp add: float_fields_Cons dropWhile_space_id)
  finally show ?case using Suc xs by (simp add: fixed_val_def)
qed

lemma csv_format_directives:
  "parse_format csv_format =
     [DInt, DLit CHR '','', DSpace, DInt, DLit CHR '','', DSpace, DScanNot CHR '','', DLit CHR '','', DSpace,
      DScanNot CHR '','', DLit CHR '','', DSpace] @ flt_dirs 5"
  by (simp add: csv_format_def is_space_def numeral_eq_Suc)

lemma dropWhile_show_int [simp]: "dropWhile is_space (show_int i @ r) = show_int i @ r"
proof -
  have "hd (show_int i @ r) = CHR ''-'' \<or> is_digit (hd (show_int i @ r))"
    by (simp add: show_int_def show_nat_hd)
  then show ?thesis
    using show_nat_digits [of "nat \<bar>i\<bar>"] digit_not_space
    by (intro dropWhile_space_id) (auto simp: show_int_def is_space_def)
qed

lemma csv_scan_csv_line:
  assumes d: "d \<noteq> []" "CHR '','' \<notin> set d" "\<not> is_space (hd d)"
    and t: "t \<noteq> []" "CHR '','' \<notin> set t" "\<not> is_space (hd t)"
    and xs: "length xs = 6" "\<forall>(m, k)\<in>set xs. 0 < k"
  shows "csv_scan (csv_line r s d t xs) =
           [CInt r, CInt s, CStr d, CStr t] @ map (CFlt \<circ> fixed_val) xs"
proof -
  have D: "dropWhile is_space (d @ x) = d @ x" "dropWhile is_space (t @ x) = t @ x" for x
    using d t by (simp_all add: dropWhile_space_id)
  have T: "takeWhile (\<lambda>x. x \<noteq> CHR '','') (d @ CHR '','' # x) = d"
    "takeWhile (\<lambda>x. x \<noteq> CHR '','') (t @ CHR '','' # x) = t" for x
    using d(2) t(2) by (simp_all add: takeWhile_upto)
  obtain y ys where y: "xs = y # ys" using xs(1) by (cases xs) auto
  have F: "dropWhile is_space (float_fields xs @ ''\<newline>'') = float_fields xs @ ''\<newline>''"
    using dec_str_start [of y] by (simp add: y float_fields_Cons dropWhile_space_id)
  have "vsscanf (flt_dirs 5) (float_fields xs @ ''\<newline>'') = map (CFlt \<circ> fixed_val) xs"
    using xs by (intro vsscanf_floats) simp_all
  with F show ?thesis
    by (simp add: csv_scan_def csv_format_directives csv_line_def lex_int_show_int D T d(1) t(1) is_space_def)
qed

subsection \<open>Round trip\<close>

text \<open>
  C11. Parse/print round trip of the input format: a line written in the CSV format of the
  specification, two integers, a date and a time field (non-empty, without comma, not
  starting with white space) and six fixed-point numbers, is scanned by the format of
  line 162 into exactly those ten values.
\<close>

theorem csv_scan_roundtrip:
  assumes d: "d \<noteq> []" "CHR '','' \<notin> set d" "\<not> is_space (hd d)"
    and t: "t \<noteq> []" "CHR '','' \<notin> set t" "\<not> is_space (hd t)"
    and xs: "length xs = 6" "\<forall>(m, k)\<in>set xs. 0 < k"
  shows "csv_scan (csv_line r s d t xs) =
           [CInt r, CInt s, CStr d, CStr t] @ map (CFlt \<circ> fixed_val) xs"
  using csv_scan_csv_line [OF assms] .

theorem csv_scan_roundtrip_witness:
  "csv_scan (csv_line 1 2 ''2017-01-01'' ''10:00:00'' [(5, 1), (-981, 2), (0, 1), (1, 3), (-2, 3), (30, 2)]) =
     [CInt 1, CInt 2, CStr ''2017-01-01'', CStr ''10:00:00'',
      CFlt 0.5, CFlt (-9.81), CFlt 0, CFlt 0.001, CFlt (-0.002), CFlt 0.3]"
  using csv_scan_roundtrip [of "''2017-01-01''" "''10:00:00''" "[(5, 1), (-981, 2), (0, 1), (1, 3), (-2, 3), (30, 2)]" 1 2]
  by (simp add: is_space_def fixed_val_def)

subsection \<open>The read loop with the real scanner\<close>

lemma sscanf_assign_csv_line:
  assumes d: "d \<noteq> []" "CHR '','' \<notin> set d" "\<not> is_space (hd d)" "length d < 12"
    and t: "t \<noteq> []" "CHR '','' \<notin> set t" "\<not> is_space (hd t)" "length t < 12"
    and xs: "length xs = 6" "\<forall>(m, k)\<in>set xs. 0 < k"
  shows "sscanf_assign 0 (csv_scan (csv_line r s d t xs)) v =
           Inr \<lparr>rec_id = word_of_int r, sen_id = word_of_int s, date = d, time = t,
                sample = \<lparr>arx = fixed_val (xs ! 0), ary = fixed_val (xs ! 1), arz = fixed_val (xs ! 2),
                          grx = fixed_val (xs ! 3), gry = fixed_val (xs ! 4), grz = fixed_val (xs ! 5)\<rparr>\<rparr>"
proof -
  obtain a b c e f g where "xs = [a, b, c, e, f, g]"
    using xs(1) by (cases xs; cases "tl xs"; cases "tl (tl xs)"; cases "tl (tl (tl xs))";
      cases "tl (tl (tl (tl xs)))"; cases "tl (tl (tl (tl (tl xs))))") auto
  with csv_scan_csv_line [OF d(1-3) t(1-3) xs] d(4) t(4) show ?thesis
    by (simp add: numeral_eq_Suc)
qed

text \<open>
  C12. A well-formed CSV line, with date and time shorter than their 12-byte arrays, sets
  all ten variables of \<open>main\<close>: nothing of the previous line survives, and the line is
  processed as exactly the sample it contains and printed with the resulting state.
\<close>

theorem line_step_csv_line:
  assumes d: "d \<noteq> []" "CHR '','' \<notin> set d" "\<not> is_space (hd d)" "length d < 12"
    and t: "t \<noteq> []" "CHR '','' \<notin> set t" "\<not> is_space (hd t)" "length t < 12"
    and xs: "length xs = 6" "\<forall>(m, k)\<in>set xs. 0 < k"
  shows "line_step csv_scan (csv_line r s d t xs) st =
           (let v = \<lparr>rec_id = word_of_int r, sen_id = word_of_int s, date = d, time = t,
                     sample = \<lparr>arx = fixed_val (xs ! 0), ary = fixed_val (xs ! 1), arz = fixed_val (xs ! 2),
                               grx = fixed_val (xs ! 3), gry = fixed_val (xs ! 4), grz = fixed_val (xs ! 5)\<rparr>\<rparr>;
                ps = main_step (pst st) (sample v)
            in Inr (st\<lparr>vars := v, pst := ps, out_rows := out_rows st @ [data_line v ps]\<rparr>))"
  using sscanf_assign_csv_line [OF d t xs, of r s "vars st"] by (simp add: line_step_def Let_def)

theorem line_step_csv_line_witness:
  "line_step csv_scan (csv_line 1 2 ''2017-01-01'' ''10:00:00'' [(5, 1), (981, 2), (0, 1), (0, 1), (0, 1), (0, 1)])
     (loop_init [])
   = (let v = \<lparr>rec_id = 1, sen_id = 2, date = ''2017-01-01'', time = ''10:00:00'',
               sample = \<lparr>arx = 0.5, ary = 9.81, arz = 0, grx = 0, gry = 0, grz = 0\<rparr>\<rparr>;
          ps = main_step pedo_init (sample v)
      in Inr ((loop_init [])\<lparr>vars := v, pst := ps, out_rows := [data_line v ps]\<rparr>))"
  using line_step_csv_line [of "''2017-01-01''" "''10:00:00''" "[(5, 1), (981, 2), (0, 1), (0, 1), (0, 1), (0, 1)]"
      1 2 "loop_init []"]
  by (simp add: is_space_def fixed_val_def loop_init_def)

text \<open>
  C13. A blank line is not skipped: \<open>sscanf\<close> converts nothing, its return value is not
  checked, and \<open>main\<close> processes the previous line's values again as a new sample (the
  timestamp advances and the row is printed once more), for instance for a trailing empty
  line of the input file.
\<close>

theorem line_step_blank_line:
  "line_step csv_scan ''\<newline>'' st =
     Inr (st\<lparr>pst := main_step (pst st) (sample (vars st)),
             out_rows := out_rows st @ [data_line (vars st) (main_step (pst st) (sample (vars st)))]\<rparr>)"
  by (simp add: line_step_def csv_scan_def csv_format_directives lex_int_def lex_sign_def is_space_def Let_def)

subsection \<open>Over-long date and time fields\<close>

lemma long_date_line:
  "csv_line 1 2 ''2017-01-01 10'' ''00:00'' (replicate 6 (0, 1)) =
     ''1, 2, 2017-01-01 10, 00:00, 0.0, 0.0, 0.0, 0.0, 0.0, 0.0\<newline>''"
  by code_simp

text \<open>
  C22. Line 162 reads the date and time with \<open>%[^,]\<close> and no field width into the
  12-byte arrays of line 81: when the first data line is in the CSV format of the
  specification and its date or its time field has 12 or more characters, \<open>sscanf\<close>
  writes past the end of that array and the run of \<open>main\<close> is undefined, whatever
  follows in the file. The fault names the first field that overflows.
\<close>

theorem main_prog_field_overflow:
  assumes io: "length argv = 3" "files w (argv ! 1) = Some content" "writable w (argv ! 2)"
      "skip_lines 2 content = Some body"
    and first: "fgets_lines body = csv_line r s d t xs # ls"
    and d: "d \<noteq> []" "CHR '','' \<notin> set d" "\<not> is_space (hd d)"
    and t: "t \<noteq> []" "CHR '','' \<notin> set t" "\<not> is_space (hd t)"
    and xs: "length xs = 6" "\<forall>(m, k)\<in>set xs. 0 < k"
    and long: "12 \<le> length d \<or> 12 \<le> length t"
  shows "main_prog csv_scan argv w = Some (Inl (Overflow (if 12 \<le> length d then ''date'' else ''time'')))"
proof -
  let ?e = "Overflow (if 12 \<le> length d then ''date'' else ''time'')"
  have "sscanf_assign 0 (csv_scan (csv_line r s d t xs)) v = Inl ?e" for v
    using csv_scan_csv_line [OF d t xs, of r s] long by (cases "12 \<le> length d") (auto simp: numeral_eq_Suc)
  then have "scan_vars csv_scan (vars ((loop_init body)\<lparr>rest := []\<rparr>)) (fgets_lines body) = Inl ?e"
    by (simp add: first)
  from run_lines_scan_fault [OF this] show ?thesis
    by (simp add: main_prog_setup [OF io])
qed

theorem main_prog_field_overflow_witness:
  "main_prog csv_scan [''pedometer'', ''in.csv'', ''out.csv'']
     \<lparr>files = (\<lambda>n. if n = ''in.csv'' then Some long_date_file else None), writable = (\<lambda>n. True)\<rparr> =
   Some (Inl (Overflow ''date''))"
proof -
  let ?l = "csv_line 1 2 ''2017-01-01 10'' ''00:00'' (replicate 6 (0, 1))"
  have sk: "skip_lines 2 long_date_file = Some ?l"
    unfolding long_date_file_def long_date_line
    by (simp add: fgets_def line_len_def MAX_CHAR_PER_LINE_def numeral_2_eq_2)
  have fl: "fgets_lines ?l = [?l]"
    unfolding long_date_line
    by (simp add: fgets_lines.simps [of "''1, 2, 2017-01-01 10, 00:00, 0.0, 0.0, 0.0, 0.0, 0.0, 0.0\<newline>''"]
        fgets_lines.simps [of "[]"] fgets_def line_len_def MAX_CHAR_PER_LINE_def)
  show ?thesis
    using main_prog_field_overflow [of "[''pedometer'', ''in.csv'', ''out.csv'']"
        "\<lparr>files = (\<lambda>n. if n = ''in.csv'' then Some long_date_file else None), writable = (\<lambda>n. True)\<rparr>"
        long_date_file ?l 1 2 "''2017-01-01 10''" "''00:00''" "replicate 6 (0, 1)" "[]", OF _ _ _ sk fl]
    by (simp add: is_space_def)
qed

end
