(* ===== verification/Printf.thy ===== *)
theory Printf
  imports Scanf
begin

text \<open>
  What \<open>printf\<close> and \<open>fprintf\<close> write for the conversions \<open>main\<close> uses: \<open>%d\<close> of an
  \<open>int\<close>, \<open>%s\<close>, and \<open>%f\<close>, which prints six decimals rounded to nearest with ties to
  even (C11 7.21.6.1, as glibc does), and the text of the output rows (lines 157 and
  181--183) and of the messages on standard output (lines 91, 97, 103, 153, 186--187).
\<close>

text \<open>Rounding to nearest, ties to even.\<close>

definition rne :: "real \<Rightarrow> int" where
  "rne y = (let f = \<lfloor>y\<rfloor>; d = y - of_int f
            in if d < 1/2 then f else if d > 1/2 then f + 1 else if even f then f else f + 1)"

text \<open>\<open>%f\<close>: the sign, then the magnitude rounded to six decimals.\<close>

definition fmt_f :: "float \<Rightarrow> string" where
  "fmt_f x = fixed_str (x < 0) (nat (rne (\<bar>x\<bar> * 10 ^ 6))) 6"

text \<open>The value \<open>fmt_f x\<close> denotes.\<close>

definition round6 :: "float \<Rightarrow> float" where
  "round6 x = (let n = rne (\<bar>x\<bar> * 10 ^ 6) in (if x < 0 then - of_int n else of_int n) / 10 ^ 6)"

text \<open>Lines 157 and 181--183: the header and a data row of the output file.\<close>

fun render_line :: "out_line \<Rightarrow> string" where
  "render_line HeaderLine =
     ''RECORD, TYPE, DATE, TIME, arx, ary, arz, grx, gry, grz, timestamp(sec), step_count, step_type, step_type_num\<newline>''"
| "render_line (DataLine v ts cnt name num) =
     show_int (sint (rec_id v)) @ '', '' @ show_int (sint (sen_id v)) @ '', '' @ date v @ '', '' @ time v @ '', '' @
     fmt_f (arx (sample v)) @ '', '' @ fmt_f (ary (sample v)) @ '', '' @ fmt_f (arz (sample v)) @ '', '' @
     fmt_f (grx (sample v)) @ '', '' @ fmt_f (gry (sample v)) @ '', '' @ fmt_f (grz (sample v)) @ '', '' @
     fmt_f ts @ '', '' @ show_int cnt @ '', '' @ name @ '', '' @ show_int (int num) @ ''\<newline>''"

definition out_text :: "out_line list \<Rightarrow> string" where
  "out_text ls = concat (map render_line ls)"

text \<open>
  The messages on standard output. \<open>argv[0]\<close> is \<open>NULL\<close> when \<open>argc = 0\<close>; \<open>%s\<close> of
  \<open>NULL\<close> is undefined in C, and glibc prints \<open>(null)\<close>.
\<close>

fun render_msg :: "msg \<Rightarrow> string" where
  "render_msg (Usage p) = ''Usage: '' @ (case p of Some a \<Rightarrow> a | None \<Rightarrow> ''(null)'') @ '' inputfile outputfile\<newline>''"
| "render_msg (CannotOpenInput f) = ''Cannot open input file: '' @ f @ ''\<newline>''"
| "render_msg (CannotOpenOutput f) = ''Cannot open output file: '' @ f @ ''\<newline>''"
| "render_msg (CannotReadHeader f) = ''Cannot read first two lines of input file: '' @ f @ ''\<newline>''"
| "render_msg (Summary t tot w r h) =
     ''Total motion duration is '' @ fmt_f t @ '' sec, which contains approximatly:\<newline> '' @ show_int tot @
     '' Total number of steps including\<newline> |---> '' @ show_int w @ '' steps of WALKING, \<newline> |---> '' @
     show_int r @ '' steps of RUNNING, and \<newline> |---> '' @ show_int h @ '' steps of HOPPING.\<newline>''"
| "render_msg Done = ''Done.\<newline>''"

subsection \<open>Rounding\<close>

lemma rne_dist: "\<bar>y - of_int (rne y)\<bar> \<le> 1/2"
proof -
  have f: "of_int \<lfloor>y\<rfloor> \<le> y" "y < of_int \<lfloor>y\<rfloor> + 1"
    by (rule of_int_floor_le) (rule real_of_int_floor_add_one_gt)
  show ?thesis
    using f by (simp add: rne_def Let_def abs_le_iff split: if_split; linarith)
qed

lemma rne_nonneg: "0 \<le> y \<Longrightarrow> 0 \<le> rne y"
  unfolding rne_def Let_def by (simp split: if_split)

lemma round6_dist: "\<bar>x - round6 x\<bar> \<le> 1 / 2000000"
proof -
  define n where "n = rne (\<bar>x\<bar> * 10 ^ 6)"
  have h: "\<bar>\<bar>x\<bar> * 10 ^ 6 - of_int n\<bar> \<le> 1/2" unfolding n_def by (rule rne_dist)
  have r: "round6 x = (if x < 0 then - of_int n else of_int n) / 10 ^ 6"
    by (simp only: round6_def Let_def n_def)
  define a where "a = \<bar>x\<bar> * 10 ^ 6 - of_int n"
  have "x - round6 x = (if x < 0 then -1 else 1) * (a / 10 ^ 6)"
    by (simp add: r a_def field_simps)
  then have "\<bar>x - round6 x\<bar> = \<bar>(if x < 0 then -1 else 1) * (a / 10 ^ 6)\<bar>"
    by (rule arg_cong [where f = abs])
  also have "\<dots> = \<bar>a\<bar> / 10 ^ 6"
    by (simp add: abs_mult)
  finally have "\<bar>x - round6 x\<bar> = \<bar>a\<bar> / 10 ^ 6" .
  moreover have "\<bar>a\<bar> \<le> 1/2" using h by (simp add: a_def)
  ultimately show ?thesis by simp
qed

subsection \<open>Reading back what \<open>%f\<close> wrote\<close>

lemma lex_float_fmt_f:
  assumes "r = [] \<or> (\<not> is_digit (hd r) \<and> hd r \<noteq> CHR ''e'' \<and> hd r \<noteq> CHR ''E'')"
  shows "lex_float (fmt_f x @ r) = Some (round6 x, r)"
proof -
  have "(if x < 0 then -1 else 1) * real (nat (rne (\<bar>x\<bar> * 10 ^ 6))) / 10 ^ 6 = round6 x"
    using rne_nonneg [of "\<bar>x\<bar> * 10 ^ 6"] by (simp add: round6_def Let_def)
  with lex_float_fixed_str [of 6 r "x < 0" "nat (rne (\<bar>x\<bar> * 10 ^ 6))"] assms show ?thesis
    by (simp add: fmt_f_def)
qed

lemma dropWhile_fmt_f [simp]: "dropWhile is_space (fmt_f x @ r) = fmt_f x @ r"
proof -
  note S = fixed_str_start [of "x < 0" "nat (rne (\<bar>x\<bar> * 10 ^ 6))" 6 r]
  show ?thesis unfolding fmt_f_def by (rule dropWhile_space_id [OF conjunct1 [OF S] conjunct2 [OF S]])
qed

text \<open>
  Reading back what \<open>%f\<close> printed: \<open>sscanf\<close>'s \<open>%f\<close> on the text of \<open>printf\<close>'s
  \<open>%f\<close> of \<open>x\<close> gives \<open>x\<close> rounded to six decimals, which is within half a unit of the
  sixth decimal of \<open>x\<close>.
\<close>

lemma fmt_f_read_back:
  "vsscanf (parse_format ''%f'') (fmt_f x) = [CFlt (round6 x)] \<and> \<bar>x - round6 x\<bar> \<le> 1 / 2000000"
  using lex_float_fmt_f [of "[]" x] round6_dist [of x] dropWhile_fmt_f [of x "[]"] by simp

lemma render_data_scan:
  assumes d: "date v \<noteq> []" "CHR '','' \<notin> set (date v)" "\<not> is_space (hd (date v))"
    and t: "time v \<noteq> []" "CHR '','' \<notin> set (time v)" "\<not> is_space (hd (time v))"
  shows "csv_scan (render_line (DataLine v ts cnt name num)) =
           [CInt (sint (rec_id v)), CInt (sint (sen_id v)), CStr (date v), CStr (time v),
            CFlt (round6 (arx (sample v))), CFlt (round6 (ary (sample v))), CFlt (round6 (arz (sample v))),
            CFlt (round6 (grx (sample v))), CFlt (round6 (gry (sample v))), CFlt (round6 (grz (sample v)))]"
proof -
  have D: "dropWhile is_space (date v @ x) = date v @ x" "dropWhile is_space (time v @ x) = time v @ x" for x
    using d t by (simp_all add: dropWhile_space_id)
  have T: "takeWhile (\<lambda>x. x \<noteq> CHR '','') (date v @ CHR '','' # x) = date v"
    "takeWhile (\<lambda>x. x \<noteq> CHR '','') (time v @ CHR '','' # x) = time v" for x
    using d(2) t(2) by (simp_all add: takeWhile_upto)
  show ?thesis
    using d(1) t(1)
    by (simp add: csv_scan_def csv_format_directives numeral_eq_Suc lex_int_show_int lex_float_fmt_f D T is_space_def)
qed

text \<open>
  C14. The rows \<open>main\<close> writes can be read back by its own input format: scanning a data
  row of the output file with the format of line 162 and storing the result gives back the
  record and sensor ids, date and time, and the six samples rounded to six decimals, when
  date and time are what \<open>%[^,]\<close> can read and fit their arrays.
\<close>

theorem output_row_read_back:
  assumes d: "date v \<noteq> []" "CHR '','' \<notin> set (date v)" "\<not> is_space (hd (date v))" "length (date v) < 12"
    and t: "time v \<noteq> []" "CHR '','' \<notin> set (time v)" "\<not> is_space (hd (time v))" "length (time v) < 12"
  shows "sscanf_assign 0 (csv_scan (render_line (DataLine v ts cnt name num))) v0 =
           Inr (v\<lparr>sample := \<lparr>arx = round6 (arx (sample v)), ary = round6 (ary (sample v)),
                   arz = round6 (arz (sample v)), grx = round6 (grx (sample v)), gry = round6 (gry (sample v)),
                   grz = round6 (grz (sample v))\<rparr>\<rparr>)"
  using render_data_scan [OF d(1-3) t(1-3)] d(4) t(4) by (simp add: numeral_eq_Suc)

theorem output_row_read_back_witness:
  "sscanf_assign 0 (csv_scan (render_line (DataLine
      \<lparr>rec_id = 1, sen_id = 2, date = ''2017-01-01'', time = ''10:00:00'',
       sample = \<lparr>arx = 0.5, ary = 9.81, arz = 0, grx = 0, gry = 0, grz = 0\<rparr>\<rparr> 1 0 ''STATIONARY'' 0))) csv_vars_init =
   Inr \<lparr>rec_id = 1, sen_id = 2, date = ''2017-01-01'', time = ''10:00:00'',
        sample = \<lparr>arx = round6 0.5, ary = round6 9.81, arz = round6 0, grx = round6 0, gry = round6 0,
                  grz = round6 0\<rparr>\<rparr>"
  using output_row_read_back [of "\<lparr>rec_id = 1, sen_id = 2, date = ''2017-01-01'', time = ''10:00:00'',
       sample = \<lparr>arx = 0.5, ary = 9.81, arz = 0, grx = 0, gry = 0, grz = 0\<rparr>\<rparr>" 1 0 "''STATIONARY''" 0 csv_vars_init]
  by (simp add: is_space_def)

end
