(* ===== verification/Gating.thy ===== *)
theory Gating
  imports Detector
begin

text \<open>
  The two gates of the zero-crossing scan of \<open>step_algo_run\<close> (lines 297--342): a minimum
  is a step only when it lies more than \<open>CLOSE_TO_ZERO\<close> below the last confirmed maximum
  (the amplitude gate), and an extremum is confirmed only more than \<open>NO_DETECT_DUR_SEC\<close>
  after the last one of its kind (the dead time). \<open>scan_prefix\<close> is the scan's state
  after its first \<open>k\<close> iterations, so that two iterations of one scan can be compared.
\<close>

text \<open>The loop of lines 291--344 stopped after \<open>k\<close> iterations; \<open>k = SAMP_BUFF_LEN\<close> is the whole scan.\<close>

definition scan_prefix :: "algo_state \<Rightarrow> algo_out_t \<Rightarrow> nat \<Rightarrow> scan_st" where
  "scan_prefix st out k =
     for_loop 0 k (scan_iter (AccDer st) (AccFilt st) (TimeStamps st)) (scan_init out (prevAccDer st))"

subsection \<open>The dead time\<close>

lemma scan_prefix_Suc:
  "scan_prefix st out (Suc k) = scan_iter (AccDer st) (AccFilt st) (TimeStamps st) k (scan_prefix st out k)"
  by (simp add: scan_prefix_def for_loop_last)

lemma scan_prefix_ts_mono:
  assumes "k \<le> m"
  shows "max_ts (scan_prefix st out k) \<le> max_ts (scan_prefix st out m) \<and>
         min_ts (scan_prefix st out k) \<le> min_ts (scan_prefix st out m)"
proof -
  have "scan_prefix st out m = for_loop k m (scan_iter (AccDer st) (AccFilt st) (TimeStamps st)) (scan_prefix st out k)"
    using assms by (simp add: scan_prefix_def for_loop_split [of 0 k m])
  then show ?thesis
    using for_loop_mono [of k m max_ts] for_loop_mono [of k m min_ts] scan_iter_ts_mono by metis
qed

subsection \<open>Properties of the gates\<close>

text \<open>
  C9. Amplitude gating: when the previous frame's tail, the new frame and the last confirmed
  maximum all lie within one band of width \<open>CLOSE_TO_ZERO\<close>, a run of \<open>step_algo_run\<close>
  counts no step; \<open>step_count\<close> and the walking, running and hopping counters are unchanged.
\<close>

theorem step_algo_run_amplitude_gate:
  assumes wf: "algo_wf st" and ly: "length buf_y = SAMP_BUFF_LEN" and lt: "length buf_ts = SAMP_BUFF_LEN"
    and band: "\<forall>x\<in>insert (prev_max out) (set (take (unat (TC_samples (ll_filter_y st))) (AccFilt st)) \<union> set buf_y).
                 lo \<le> x \<and> x \<le> lo + CLOSE_TO_ZERO"
  shows "step_count (snd (step_algo_run buf_y buf_ts st out)) = step_count out \<and>
         tally (fst (step_algo_run buf_y buf_ts st out)) = tally st"
proof -
  define tc where "tc = unat (TC_samples (ll_filter_y st))"
  define st1 where "st1 = fill_frame buf_y buf_ts tc st"
  from step_algo_run_parts [OF wf ly lt, of out]
  have W: "take (tc + SAMP_BUFF_LEN) (AccFilt st1) = take tc (AccFilt st) @ buf_y"
    by (simp only: Let_def tc_def st1_def)
  from wf have "tc \<le> length (AccFilt st)" by (simp add: algo_wf_def tc_def)
  then have "length (take (tc + SAMP_BUFF_LEN) (AccFilt st1)) = tc + SAMP_BUFF_LEN"
    using W ly by simp
  then have len: "SAMP_BUFF_LEN \<le> length (AccFilt st1)" by simp
  have "take SAMP_BUFF_LEN (AccFilt st1) = take SAMP_BUFF_LEN (take (tc + SAMP_BUFF_LEN) (AccFilt st1))"
    by simp
  then have "set (take SAMP_BUFF_LEN (AccFilt st1)) \<subseteq> set (take tc (AccFilt st)) \<union> set buf_y"
    using W set_take_subset by (metis set_append)
  with band have "\<forall>x\<in>insert (prev_max out) (set (take SAMP_BUFF_LEN (AccFilt st1))). lo \<le> x \<and> x \<le> lo + CLOSE_TO_ZERO"
    by (auto simp: tc_def)
  from scan_frame_band [OF len this] have "count_min_det (scan_frame st1 out) = 0" .
  with step_algo_run_counters [of buf_y buf_ts st out] show ?thesis
    by (auto simp: st1_def tc_def)
qed

theorem step_algo_run_amplitude_gate_witness:
  "step_count (snd (step_algo_run (replicate SAMP_BUFF_LEN 1) (replicate SAMP_BUFF_LEN 1) algo_init
      \<lparr>step_count = 7, step_type = WALK, prev_max = 0, prev_min = 0, prev_max_ts = 0, prev_min_ts = 0\<rparr>)) = 7"
proof -
  have "algo_wf algo_init" by (rule algo_init_wf)
  moreover have "\<forall>x\<in>insert 0 (set (take (unat (TC_samples (ll_filter_y algo_init))) (AccFilt algo_init)) \<union>
      set (replicate SAMP_BUFF_LEN (1::float))). 0 \<le> x \<and> x \<le> 0 + CLOSE_TO_ZERO"
    by (auto simp: algo_init_def pedo_consts dest: in_set_takeD)
  ultimately show ?thesis
    using step_algo_run_amplitude_gate [of algo_init "replicate SAMP_BUFF_LEN 1" "replicate SAMP_BUFF_LEN 1"
      "\<lparr>step_count = 7, step_type = WALK, prev_max = 0, prev_min = 0, prev_max_ts = 0, prev_min_ts = 0\<rparr>" 0]
    by simp
qed

text \<open>
  C10. Dead-time gating: if the scan confirms a maximum at iteration \<open>i\<close> and another at a
  later iteration \<open>j\<close> of the same frame, the second is more than \<open>NO_DETECT_DUR_SEC\<close> later
  than the first; likewise for minima. Two extrema of one kind closer than 0.2 s are never
  both confirmed.
\<close>

theorem scan_dead_time:
  assumes "i < j"
  shows "(count_max_det (scan_prefix st out (Suc i)) \<noteq> count_max_det (scan_prefix st out i) \<and>
          count_max_det (scan_prefix st out (Suc j)) \<noteq> count_max_det (scan_prefix st out j) \<longrightarrow>
          TimeStamps st ! i + NO_DETECT_DUR_SEC < TimeStamps st ! j) \<and>
         (count_min_det (scan_prefix st out (Suc i)) \<noteq> count_min_det (scan_prefix st out i) \<and>
          count_min_det (scan_prefix st out (Suc j)) \<noteq> count_min_det (scan_prefix st out j) \<longrightarrow>
          TimeStamps st ! i + NO_DETECT_DUR_SEC < TimeStamps st ! j)"
proof -
  from assms have M: "max_ts (scan_prefix st out (Suc i)) \<le> max_ts (scan_prefix st out j) \<and>
      min_ts (scan_prefix st out (Suc i)) \<le> min_ts (scan_prefix st out j)"
    by (intro scan_prefix_ts_mono) simp
  show ?thesis
    using M scan_iter_max_commit scan_iter_min_commit by (fastforce simp: scan_prefix_Suc)
qed

theorem scan_dead_time_witness:
  "count_max_det (scan_prefix (algo_init\<lparr>AccDer := [-1, 1, -1] @ replicate 49 0, AccFilt := [5, 0, 5] @ replicate 69 0,
       TimeStamps := [1, 3/2, 2] @ replicate 69 0\<rparr>)
     \<lparr>step_count = 0, step_type = STATIC, prev_max = 0, prev_min = 0, prev_max_ts = 0, prev_min_ts = 0\<rparr> 1) \<noteq>
   count_max_det (scan_prefix (algo_init\<lparr>AccDer := [-1, 1, -1] @ replicate 49 0, AccFilt := [5, 0, 5] @ replicate 69 0,
       TimeStamps := [1, 3/2, 2] @ replicate 69 0\<rparr>)
     \<lparr>step_count = 0, step_type = STATIC, prev_max = 0, prev_min = 0, prev_max_ts = 0, prev_min_ts = 0\<rparr> 0) \<and>
   count_max_det (scan_prefix (algo_init\<lparr>AccDer := [-1, 1, -1] @ replicate 49 0, AccFilt := [5, 0, 5] @ replicate 69 0,
       TimeStamps := [1, 3/2, 2] @ replicate 69 0\<rparr>)
     \<lparr>step_count = 0, step_type = STATIC, prev_max = 0, prev_min = 0, prev_max_ts = 0, prev_min_ts = 0\<rparr> 3) \<noteq>
   count_max_det (scan_prefix (algo_init\<lparr>AccDer := [-1, 1, -1] @ replicate 49 0, AccFilt := [5, 0, 5] @ replicate 69 0,
       TimeStamps := [1, 3/2, 2] @ replicate 69 0\<rparr>)
     \<lparr>step_count = 0, step_type = STATIC, prev_max = 0, prev_min = 0, prev_max_ts = 0, prev_min_ts = 0\<rparr> 2) \<and>
   (1::float) + NO_DETECT_DUR_SEC < 2"
proof -
  define st where "st = algo_init\<lparr>AccDer := [-1, 1, -1] @ replicate 49 0, AccFilt := [5, 0, 5] @ replicate 69 0,
       TimeStamps := [1, 3/2, 2] @ replicate 69 0\<rparr>"
  define out where "out = \<lparr>step_count = 0, step_type = STATIC, prev_max = 0, prev_min = 0, prev_max_ts = 0, prev_min_ts = (0::float)\<rparr>"
  have s0: "scan_prefix st out 0 = scan_init out 0"
    by (simp add: scan_prefix_def st_def algo_init_def)
  have n: "(1::nat) = Suc 0" "(2::nat) = Suc (Suc 0)" "(3::nat) = Suc (Suc (Suc 0))" by simp_all
  have c: "count_max_det (scan_prefix st out 1) \<noteq> count_max_det (scan_prefix st out 0) \<and>
           count_max_det (scan_prefix st out 3) \<noteq> count_max_det (scan_prefix st out 2)"
    unfolding n scan_prefix_Suc s0
    by (simp add: st_def out_def scan_init_def scan_iter_def detect_max_def detect_min_def Let_def pedo_consts)
  from c scan_dead_time [of 0 2 st out] have "TimeStamps st ! 0 + NO_DETECT_DUR_SEC < TimeStamps st ! 2"
    by simp
  with c show ?thesis by (simp add: st_def out_def)
qed

end
