(* ===== verification/Frame_Buffer.thy ===== *)
theory Frame_Buffer
  imports Preproc
begin

text \<open>
  The frame buffer as \<open>pedometer.c\<close> declares it, \<open>AccBuff[NUM_DIM+1][SAMP_BUFF_LEN]\<close>
  (line 67), with rows indexed by \<open>axis_t\<close> of \<open>pedometer.h\<close> (lines 45--50), and
  \<open>step_algo_preproc\<close> writing its rows \<open>CHY\<close> and \<open>CHZ + 1\<close> (lines 212--213). The
  refinement lemma justifies the two-row state of \<open>Preproc\<close>: the x- and z-rows stay
  zero, and the other two rows are \<open>AccBuff_y\<close> and \<open>AccBuff_ts\<close>.
\<close>

text \<open>\<open>axis_t\<close> and its enumeration values.\<close>

datatype axis_t = CHX | CHY | CHZ | NUM_DIM

fun axis_idx :: "axis_t \<Rightarrow> nat" where
  "axis_idx CHX = 0"
| "axis_idx CHY = 1"
| "axis_idx CHZ = 2"
| "axis_idx NUM_DIM = 3"

text \<open>The statics \<open>step_algo_preproc\<close> works on: \<open>lp_filter_y\<close>, \<open>AccBuff\<close> and its \<open>count\<close>.\<close>

record buffer_state =
  lp_filter :: filter_t
  AccBuff :: "float list list"
  count :: uint

text \<open>Zero-initialised statics (lines 67 and 201), the filter as \<open>main\<close> configures it.\<close>

definition buffer_init :: buffer_state where
  "buffer_init =
     \<lparr>lp_filter = lp_filter_init, AccBuff = replicate (axis_idx NUM_DIM + 1) (replicate SAMP_BUFF_LEN 0), count = 0\<rparr>"

text \<open>Lines 199--219 on the whole array.\<close>

definition step_algo_preproc_buf ::
  "buffer_state \<Rightarrow> float \<Rightarrow> float \<Rightarrow> float \<Rightarrow> float \<Rightarrow> float \<Rightarrow> float \<Rightarrow> float \<Rightarrow> buffer_state \<times> uint" where
  "step_algo_preproc_buf st timestamp arx ary arz grx gry grz =
     (let (lp', ary_flt) = apply_filter (lp_filter st) ary;
          c = unat (count st);
          b = AccBuff st;
          b1 = b[axis_idx CHY := (b ! axis_idx CHY)[c := ary_flt]];
          b2 = b1[axis_idx CHZ + 1 := (b1 ! (axis_idx CHZ + 1))[c := timestamp]];
          st1 = st\<lparr>lp_filter := lp', AccBuff := b2, count := count st + 1\<rparr>
      in if count st1 = word_of_nat SAMP_BUFF_LEN then (st1\<lparr>count := 0\<rparr>, 1) else (st1, 0))"

fun preproc_buf_run :: "buffer_state \<Rightarrow> (float \<times> float) list \<Rightarrow> buffer_state \<times> uint list" where
  "preproc_buf_run st [] = (st, [])"
| "preproc_buf_run st ((t, y) # xs) =
     (let r = step_algo_preproc_buf st t 0 y 0 0 0 0; rest = preproc_buf_run (fst r) xs
      in (fst rest, snd r # snd rest))"

text \<open>The two rows \<open>Preproc\<close> keeps, and the invariant that the x- and z-rows are zero.\<close>

definition buf_abs :: "buffer_state \<Rightarrow> preproc_state" where
  "buf_abs st =
     \<lparr>lp_filter_y = lp_filter st, AccBuff_y = AccBuff st ! axis_idx CHY,
      AccBuff_ts = AccBuff st ! (axis_idx CHZ + 1), buf_count = count st\<rparr>"

definition buf_wf :: "buffer_state \<Rightarrow> bool" where
  "buf_wf st \<longleftrightarrow>
     length (AccBuff st) = axis_idx NUM_DIM + 1 \<and>
     AccBuff st ! axis_idx CHX = replicate SAMP_BUFF_LEN 0 \<and>
     AccBuff st ! axis_idx CHZ = replicate SAMP_BUFF_LEN 0"

lemma buffer_init_abs: "buf_abs buffer_init = preproc_init \<and> buf_wf buffer_init"
  by (simp add: buf_abs_def buffer_init_def preproc_init_def buf_wf_def)

lemma step_algo_preproc_buf_step:
  assumes "buf_wf st"
  shows "buf_wf (fst (step_algo_preproc_buf st t ax ay az gx gy gz)) \<and>
         buf_abs (fst (step_algo_preproc_buf st t ax ay az gx gy gz)) = fst (step_algo_preproc (buf_abs st) t ax ay az gx gy gz) \<and>
         snd (step_algo_preproc_buf st t ax ay az gx gy gz) = snd (step_algo_preproc (buf_abs st) t ax ay az gx gy gz)"
  using assms
  by (simp add: step_algo_preproc_buf_def step_algo_preproc_def buf_abs_def buf_wf_def split_def Let_def nth_list_update)

text \<open>
  C16. Data refinement of the frame buffer: along any sequence of samples, the full
  \<open>AccBuff[NUM_DIM+1][SAMP_BUFF_LEN]\<close> of the C program keeps its x- and z-rows zero, its
  rows \<open>CHY\<close> and \<open>CHZ + 1\<close> and its filter and \<open>count\<close> are the two-row state of
  \<open>Preproc\<close>, and the flags returned are the same.
\<close>

theorem preproc_buf_run_refines:
  assumes "buf_wf st"
  shows "buf_wf (fst (preproc_buf_run st xs)) \<and>
         buf_abs (fst (preproc_buf_run st xs)) = fst (preproc_run (buf_abs st) xs) \<and>
         snd (preproc_buf_run st xs) = snd (preproc_run (buf_abs st) xs)"
  using assms
proof (induction xs arbitrary: st)
  case Nil
  then show ?case by simp
next
  case (Cons x xs)
  obtain t y where x: "x = (t, y)" by (cases x)
  note S = step_algo_preproc_buf_step [OF Cons.prems, of t 0 y 0 0 0 0]
  from Cons.IH [OF conjunct1 [OF S]] S show ?case by (simp add: x Let_def)
qed

theorem preproc_buf_run_refines_witness:
  "buf_abs (fst (preproc_buf_run buffer_init [(1, 9.81), (2, 9.8)])) = fst (preproc_run preproc_init [(1, 9.81), (2, 9.8)])"
  using preproc_buf_run_refines [of buffer_init "[(1, 9.81), (2, 9.8)]"] buffer_init_abs by simp

end
