(* ===== verification/Spec2Isabelle.thy ===== *)
theory Spec2Isabelle
  imports Printf Gating Frame_Buffer
begin

text \<open>
  \<^bold>\<open>A verification model of the pedometer of \<^verbatim>\<open>src/pedometer.c\<close> and \<^verbatim>\<open>src/pedometer.h\<close>.\<close>

  The program reads accelerometer samples recorded at 104 Hz from a CSV file and writes, for
  every sample, the row with a step count and a motion label, then prints a summary. Its
  parts, leaves first, and the theory that models each:
  \<^item> \<^bold>\<open>Prelude\<close>: the types (C \<open>float\<close> as \<open>real\<close>, \<open>unsigned int\<close> as \<open>32 word\<close>),
    the combinator \<open>for_loop\<close> every C \<open>for\<close> loop is written with, and its invariant,
    frame and split rules.
  \<^item> \<^bold>\<open>IIR_Filter\<close>: \<open>filter_t\<close> and \<open>apply_filter\<close> (pedometer.c 433--449), the two
    filter instances and their group delays as \<open>main\<close> sets them up, and the six filters
    of lines 60--61 as configured (\<open>filters_init\<close>, lines 108--139).
  \<^item> \<^bold>\<open>Preproc\<close>: \<open>step_algo_preproc\<close> (lines 199--219): low-pass smoothing of the
    y-axis acceleration into the frame buffer \<open>AccBuff\<close> and the flag that a frame is full.
  \<^item> \<^bold>\<open>Frame_Buffer\<close>: \<open>AccBuff[NUM_DIM+1][SAMP_BUFF_LEN]\<close> with the rows of \<open>axis_t\<close>
    (pedometer.h 44--50) as declared, refined by the two-row state of \<open>Preproc\<close>.
  \<^item> \<^bold>\<open>Motion\<close>: \<open>motion_type_t\<close>, \<open>algo_out_t\<close>, the per-motion-type counters and the
    classification at the end of \<open>step_algo_run\<close> (lines 391--424), refined from the
    specification's decision table \<open>motion_class\<close>.
  \<^item> \<^bold>\<open>Detector\<close>: \<open>step_algo_run\<close> (lines 233--426): derivative filter over the
    extended window, zero-crossing scan with dead time, amplitude and period gating,
    estimates with hold counters, tail carry between frames; \<open>run_frames\<close> chains runs.
  \<^item> \<^bold>\<open>Gating\<close>: the amplitude gate and the dead time of the scan (lines 297--342),
    with \<open>scan_prefix\<close>, the scan stopped after its first \<open>k\<close> iterations.
  \<^item> \<^bold>\<open>Pedometer\<close>: the per-sample driver of \<open>main\<close> (lines 141--184): \<open>main_step\<close>
    and \<open>main_loop\<close>, and the batched view \<open>frames_from\<close> of the input it feeds to the
    detector.
  \<^item> \<^bold>\<open>Main_IO\<close>: the rest of \<open>main\<close> (lines 74--190): arguments, opening of the
    files, header skip, the \<open>fgets\<close>/\<open>sscanf\<close> read loop as a \<open>while_option\<close> over an
    error-or-state value, the output rows and the summary, with exit codes and messages.
  \<^item> \<^bold>\<open>Scanf\<close>: the \<open>sscanf\<close> call of line 162 itself, from the C standard: the format
    string parsed into directives and run on the line, so that \<open>main_prog csv_scan\<close> is
    \<open>main\<close> with no parameter left.
  \<^item> \<^bold>\<open>Printf\<close>: the text \<open>main\<close> writes: \<open>%d\<close>, \<open>%s\<close> and \<open>%f\<close> (six decimals, ties to
    even), the header and data rows of the output file (lines 157, 181--183) and the
    messages on standard output.

  State: the statics of each C function are fields of a record (\<open>preproc_state\<close>,
  \<open>algo_state\<close>, \<open>algo_out_t\<close>), threaded explicitly; \<open>pedo_state\<close> collects them with
  \<open>main\<close>'s timestamp, and \<open>loop_st\<close> adds the unread input, the scanned variables and the
  rows written. Errors are values: the exits of \<open>main\<close> are results with exit code 1,
  and undefined behaviour (the overflow of \<open>date\<close> or \<open>time\<close>) is \<open>Inl\<close>.

  What the theorems show, by group: the step count printed with every row equals the sum of
  the counters of the motion types, and the summary agrees with the last row (this theory); the
  classification implements the decision table (\<open>Motion\<close>); \<open>main\<close> runs the detector on the
  consecutive complete frames of smoothed samples and, on fewer than \<open>2^32\<close> rows, its
  counters never decrease and the step count stays within the rows read, so the 32-bit
  counters do not wrap, and the amplitude and frequency estimates kept between runs are
  always 0 or measurements within the gates (\<open>Pedometer\<close>); and, when the input
  scans, produces exactly one row per line with that driver's values (\<open>Main_IO\<close>); the
  detector's window is the frame delayed by the filter's group delay, quiet frames age the
  estimates to \<open>STATIC\<close> on the third run and not before, constant frames change nothing,
  each run adds at most \<open>SAMP_BUFF_LEN\<close> steps, and the runs over batched frames scan the same windows as one
  sliding window over the whole smoothed stream (\<open>Detector\<close>); a window within a band of
  width \<open>CLOSE_TO_ZERO\<close> yields no step, and two extrema of one kind confirmed in one scan
  are more than \<open>NO_DETECT_DUR_SEC\<close> apart (\<open>Gating\<close>); the buffer flag is raised on every
  \<open>SAMP_BUFF_LEN\<close>-th sample (\<open>Preproc\<close>); the filter computes its difference equation
  and has unit DC gain (\<open>IIR_Filter\<close>); the error exits of \<open>main\<close> are exactly the four
  setup failures and every row has one of the four labels (\<open>Main_IO\<close>); a line in
  the CSV input format scans back to exactly its values, such a line sets every scanned
  variable, a blank line is processed as a repeat of the previous sample, and a date or
  time field of 12 or more characters overflows its array (\<open>Scanf\<close>); a row of the output
  file read with \<open>main\<close>'s own input format gives back the values it was printed from
  (\<open>Printf\<close>); the step-count column \<open>main\<close> prints never decreases and stays within the
  rows written for fewer than \<open>2^31\<close> rows (this theory); the full frame buffer of the C
  program is refined by the two rows \<open>Preproc\<close> keeps (\<open>Frame_Buffer\<close>).

  Bounds and termination: every C \<open>for\<close> loop has constant bounds (\<open>SAMP_BUFF_LEN\<close> = 52,
  \<open>TC_samples\<close> \<open>\<le>\<close> \<open>MAX_TC_SAMPLES\<close> = 20) and is total; the read loop of \<open>main\<close> is a
  \<open>while_option\<close> whose termination is a lemma (\<open>main_prog_terminates\<close>: each pass
  consumes input). No fuel is used. Supporting lemmas of the library models, not claims
  about \<open>pedometer.c\<close>: \<open>fgets\<close> cuts the input into pieces that concatenate back to it
  (\<open>fgets_lines_roundtrip\<close>), \<open>%f\<close> printed and read back is the value rounded to six
  decimals (\<open>fmt_f_read_back\<close>), and the group delays are 8 and 7 samples
  (\<open>tc_samples_bounds\<close>); \<open>scan_frame_two_minima\<close> computes a scan that confirms two
  minima with no maximum between them (a finding).

  Not modelled: floating-point rounding (floats are exact reals, so the theorems say what
  the algorithm computes, not what rounding adds); the \<open>%f\<close> inputs \<open>inf\<close>, \<open>nan\<close> and
  hexadecimal constants (\<open>Scanf\<close> reads decimal input only); a \<open>%d\<close> input outside the
  range of \<open>int\<close>, undefined in C, which the model reads as the integer it spells and stores
  modulo \<open>2^32\<close>. The x- and z-axis filters appear only in \<open>filters_init\<close>, and the
  driver state carries neither them nor the x- and z-rows of \<open>AccBuff\<close> (which
  \<open>Frame_Buffer\<close> shows stay zero): no statement of the program reads or updates them
  after the configuration.
\<close>

subsection \<open>Properties of the whole program\<close>

text \<open>
  C1. For every input sequence, the step count that \<open>main\<close> prints with each row equals
  the total of its summary line, the sum of the walking, running and hopping counters:
  every step the detector counts is credited to exactly one of the three motion types, since a
  run that confirms a minimum always estimates a frequency above \<open>SLOW_FREQ\<close> and is
  never labelled stationary. (Both sides are 32-bit counters; the equation holds modulo
  \<open>2^32\<close>, as the C arithmetic does.)
\<close>

theorem step_count_eq_summary:
  "step_count (algo_out (main_loop pedo_init rows)) = summary_total (main_loop pedo_init rows)"
proof -
  have "count_inv (main_loop pedo_init rows)"
    by (rule main_loop_count_inv [OF count_inv_init])
  then show ?thesis by (simp add: count_inv_def)
qed

text \<open>
  C6. What \<open>main\<close> prints agrees with itself: whenever a run writes at least one data row, the
  summary line states as total number of steps the step count of the last row, and as motion
  duration its timestamp (the walking, running and hopping counters always sum to the step
  count the rows carry).
\<close>

theorem summary_matches_last_row:
  assumes "main_prog scan argv w = Some (Inr r)" and "out_file r = Some (ls @ [DataLine v t c l n])"
  shows "\<exists>wk rn hp. stdout r = [Summary t c wk rn hp, Done]"
proof -
  from main_prog_cases [OF assms(1)] assms(2) obtain s where inv: "rows_inv s" and r: "r = main_finish s"
    by auto
  from assms(2) r have rows: "HeaderLine # out_rows s = ls @ [DataLine v t c l n]"
    by (simp add: main_finish_def)
  then have ne: "out_rows s \<noteq> []" by (cases ls) auto
  with rows have "last (out_rows s) = DataLine v t c l n"
    by (metis last_ConsR last_snoc)
  with inv ne have "data_line (vars s) (pst s) = DataLine v t c l n" by (simp add: rows_inv_def)
  then have "t = main_timestamp (pst s)" and "c = sint (summary_total (pst s))"
    using inv by (simp_all add: data_line_def rows_inv_def count_inv_def)
  then show ?thesis by (simp add: r main_finish_def summary_msgs_def)
qed

theorem summary_matches_last_row_witness:
  "\<exists>wk rn hp. stdout demo_result = [Summary (1 / 104) 0 wk rn hp, Done]"
  using summary_matches_last_row [OF demo_main, of "[HeaderLine]"]
  by (simp add: demo_result_def)

text \<open>
  C15. The \<open>step_count\<close> column of the output file is non-decreasing, non-negative and at
  most the number of rows, for every run of \<open>main\<close> writing fewer than \<open>2^31\<close> rows: the
  32-bit count does not wrap and \<open>%d\<close> of the unsigned counter prints it unchanged (from
  \<open>2^31\<close> on it would print negative).
\<close>

theorem output_counts_sorted:
  assumes "main_prog scan argv w = Some (Inr r)" and "out_file r = Some (HeaderLine # rows)"
    and "length rows < 2 ^ 31"
  shows "sorted (map row_count rows) \<and> (\<forall>c\<in>set (map row_count rows). 0 \<le> c \<and> c \<le> int (length rows))"
proof -
  from main_prog_rows [OF assms(1,2)] obtain vs where rows: "rows = rows_of pedo_init vs" ..
  have "length (rows_of ps vs) = length vs" for ps by (induction vs arbitrary: ps) (simp_all add: Let_def)
  with rows assms(3) have "0 + length vs < 2 ^ 31" by simp
  from rows_of_counts [OF count_bound_init this] have
    "sorted (0 # map row_count rows)" "\<forall>c\<in>set (map row_count rows). c \<le> int (length vs)"
    by (simp_all add: rows pedo_init_def algo_out_init_def)
  with rows \<open>\<And>ps. length (rows_of ps vs) = length vs\<close> show ?thesis by simp
qed

theorem output_counts_sorted_witness:
  "sorted (map row_count (tl (the (out_file demo_result)))) \<and>
   map row_count (tl (the (out_file demo_result))) = [0]"
proof -
  have "out_file demo_result = Some (HeaderLine # tl (the (out_file demo_result)))"
    and "length (tl (the (out_file demo_result))) < 2 ^ 31"
    by (simp_all add: demo_result_def)
  from output_counts_sorted [OF demo_main this] show ?thesis by (simp add: demo_result_def)
qed

end
